theory Spec2Isabelle
  imports Main
begin


section \<open>GitHub Email Finder: the data the program handles\<close>

text \<open>
  The program (gitkit/github_email_finder.py) talks to the GitHub REST interface and
  handles the decoded JSON bodies as plain Python values: dicts, lists, strings,
  numbers, booleans and None. \<open>json\<close> is that universe. A dict is an association list
  of its items in insertion order (keys distinct, as a decoded JSON object has them);
  numbers are Python's unbounded integers (the interface sends no fractional number
  in the fields the program reads).
\<close>

datatype json =
    JNull
  | JBool bool
  | JInt int
  | JStr string
  | JArr "json list"
  | JObj "(string \<times> json) list"

text \<open>
  Every exception the program can meet is a value. \<open>HTTPError\<close> is raised by
  \<open>raise_for_status\<close>, \<open>TransportError\<close> by \<open>session.get\<close> itself (connection refused,
  timeout, ...), \<open>InvalidJSON\<close> by \<open>response.json()\<close> on a body that is no JSON document;
  these three are subclasses of \<open>requests.exceptions.RequestException\<close>. The others are
  Python's own errors on a value of an unexpected shape. \<open>IllTyped\<close> is not a Python
  exception: it marks the one place where a value reaches a parameter annotated \<open>str\<close>
  without being a string, which is outside what this development describes.
\<close>

datatype error =
    HTTPError int
  | TransportError
  | InvalidJSON
  | AttributeError
  | KeyError string
  | TypeError
  | IllTyped

fun is_request_exception :: "error \<Rightarrow> bool" where
  "is_request_exception (HTTPError _) = True"
| "is_request_exception TransportError = True"
| "is_request_exception InvalidJSON = True"
| "is_request_exception _ = False"

definition bind_err :: "error + 'a \<Rightarrow> ('a \<Rightarrow> error + 'b) \<Rightarrow> error + 'b" where
  "bind_err m f = (case m of Inl e \<Rightarrow> Inl e | Inr x \<Rightarrow> f x)"

subsection \<open>Python's operations on decoded JSON\<close>

text \<open>Truthiness, as \<open>if x\<close> and \<open>not x\<close> test it.\<close>

fun py_truthy :: "json \<Rightarrow> bool" where
  "py_truthy JNull = False"
| "py_truthy (JBool b) = b"
| "py_truthy (JInt n) = (n \<noteq> 0)"
| "py_truthy (JStr s) = (s \<noteq> [])"
| "py_truthy (JArr xs) = (xs \<noteq> [])"
| "py_truthy (JObj kvs) = (kvs \<noteq> [])"

text \<open>\<open>x.get(k, d)\<close>: only a dict has the method.\<close>

fun py_get :: "json \<Rightarrow> string \<Rightarrow> json \<Rightarrow> error + json" where
  "py_get (JObj kvs) k d = Inr (case map_of kvs k of None \<Rightarrow> d | Some v \<Rightarrow> v)"
| "py_get _ k d = Inl AttributeError"

text \<open>\<open>x[k]\<close> with a string key \<open>k\<close>.\<close>

fun py_index :: "json \<Rightarrow> string \<Rightarrow> error + json" where
  "py_index (JObj kvs) k = (case map_of kvs k of None \<Rightarrow> Inl (KeyError k) | Some v \<Rightarrow> Inr v)"
| "py_index _ k = Inl TypeError"

text \<open>\<open>k in x\<close> with a string \<open>k\<close>: key of a dict, element of a list, substring of a string.\<close>

fun substring :: "string \<Rightarrow> string \<Rightarrow> bool" where
  "substring k [] = (k = [])"
| "substring k (c # s) = (take (length k) (c # s) = k \<or> substring k s)"

fun py_contains :: "string \<Rightarrow> json \<Rightarrow> error + bool" where
  "py_contains k (JObj kvs) = Inr (map_of kvs k \<noteq> None)"
| "py_contains k (JArr xs) = Inr (JStr k \<in> set xs)"
| "py_contains k (JStr s) = Inr (substring k s)"
| "py_contains k _ = Inl TypeError"

text \<open>
  Iteration (\<open>for x in v\<close>, a comprehension, \<open>list.extend(v)\<close>): a list yields its
  elements, a dict its keys, a string its characters; anything else is not iterable.
\<close>

fun py_iter :: "json \<Rightarrow> error + json list" where
  "py_iter (JArr xs) = Inr xs"
| "py_iter (JObj kvs) = Inr (map (\<lambda>kv. JStr (fst kv)) kvs)"
| "py_iter (JStr s) = Inr (map (\<lambda>c. JStr [c]) s)"
| "py_iter _ = Inl TypeError"

text \<open>
  \<open>emails.add(v)\<close>: a list or a dict is unhashable. The set holds JSON values and
  compares them with HOL's equality, which is Python's \<open>==\<close> on strings and None, the
  values an email field carries.
\<close>

fun py_set_add :: "json \<Rightarrow> json set \<Rightarrow> error + json set" where
  "py_set_add (JArr _) emails = Inl TypeError"
| "py_set_add (JObj _) emails = Inl TypeError"
| "py_set_add v emails = Inr (insert v emails)"

subsection \<open>The session and the network\<close>

text \<open>
  A request is the URL, the query parameters and the headers of the session. The
  network is a function \<open>world\<close>: the reply to the \<open>n\<close>-th request of the run (counted
  from 0), or \<open>None\<close> when the transport fails and \<open>session.get\<close> raises. Indexing by
  \<open>n\<close> lets the same request be answered differently at different times. The state
  threaded through the program is the log of the requests made so far.
\<close>

datatype request = GET (url: string) (params: "(string \<times> json) list") (headers: "(string \<times> string) list")

record response =
  status_code :: int
  body :: "json option"

type_synonym world = "nat \<Rightarrow> request \<Rightarrow> response option"

type_synonym session = "(string \<times> string) list"

definition GITHUB_API_URL :: string where
  "GITHUB_API_URL = ''https://api.github.com''"

definition create_github_session :: "string \<Rightarrow> session" where
  "create_github_session token =
     [(''Authorization'', ''Bearer '' @ token),
      (''Accept'', ''application/vnd.github.v3+json''),
      (''User-Agent'', ''GitHub-Email-Finder'')]"

definition session_get ::
  "world \<Rightarrow> session \<Rightarrow> string \<Rightarrow> (string \<times> json) list \<Rightarrow> request list
     \<Rightarrow> (error + response) \<times> request list" where
  "session_get w session u ps log =
     (case w (length log) (GET u ps session) of
        None \<Rightarrow> (Inl TransportError, log @ [GET u ps session])
      | Some r \<Rightarrow> (Inr r, log @ [GET u ps session]))"

definition raise_for_status :: "response \<Rightarrow> error + unit" where
  "raise_for_status r =
     (if 400 \<le> status_code r \<and> status_code r < 600 then Inl (HTTPError (status_code r))
      else Inr ())"

definition json_of :: "response \<Rightarrow> error + json" where
  "json_of r = (case body r of None \<Rightarrow> Inl InvalidJSON | Some j \<Rightarrow> Inr j)"

section \<open>Repository enumeration\<close>

text \<open>\<open>get_authenticated_user\<close>: one request, any 4xx/5xx status raises.\<close>

definition get_authenticated_user ::
  "world \<Rightarrow> session \<Rightarrow> request list \<Rightarrow> (error + json) \<times> request list" where
  "get_authenticated_user w session log =
     (case session_get w session (GITHUB_API_URL @ ''/user'') [] log of
        (Inl e, log1) \<Rightarrow> (Inl e, log1)
      | (Inr response, log1) \<Rightarrow>
          (case raise_for_status response of
             Inl e \<Rightarrow> (Inl e, log1)
           | Inr _ \<Rightarrow> (json_of response, log1)))"

text \<open>
  \<open>get_user_repos\<close>: the \<open>while True\<close> loop, with \<open>page\<close> and \<open>repos\<close> as its state.
  The loop may run forever (a server that never sends an empty page): the result
  \<open>None\<close> is that case.
\<close>

definition user_repos_params :: "int \<Rightarrow> (string \<times> json) list" where
  "user_repos_params page =
     [(''per_page'', JInt 100), (''page'', JInt page), (''affiliation'', JStr ''owner'')]"

partial_function (option) user_repos_loop ::
  "world \<Rightarrow> session \<Rightarrow> int \<Rightarrow> json list \<Rightarrow> request list
     \<Rightarrow> ((error + json list) \<times> request list) option" where
  "user_repos_loop w session page repos log =
     (case session_get w session (GITHUB_API_URL @ ''/user/repos'') (user_repos_params page) log of
        (Inl e, log1) \<Rightarrow> Some (Inl e, log1)
      | (Inr response, log1) \<Rightarrow>
          (case raise_for_status response of
             Inl e \<Rightarrow> Some (Inl e, log1)
           | Inr _ \<Rightarrow>
               (case json_of response of
                  Inl e \<Rightarrow> Some (Inl e, log1)
                | Inr batch \<Rightarrow>
                    if \<not> py_truthy batch then Some (Inr repos, log1)
                    else (case py_iter batch of
                            Inl e \<Rightarrow> Some (Inl e, log1)
                          | Inr items \<Rightarrow>
                              user_repos_loop w session (page + 1) (repos @ items) log1))))"

definition get_user_repos ::
  "world \<Rightarrow> session \<Rightarrow> request list \<Rightarrow> ((error + json list) \<times> request list) option" where
  "get_user_repos w session log = user_repos_loop w session 1 [] log"

text \<open>
  An f-string renders a value with Python's \<open>str\<close>. The program interpolates JSON
  values that it never inspects (an organization's login, a pull request's number, a
  repository's owner and name), so the rendering is a parameter \<open>fmt\<close> of the
  functions below; on a string it is the string itself.
\<close>

text \<open>
  \<open>get_org_repos\<close>. The filter of lines 97-98 keeps a repository when
  \<open>repo.get("permissions", {}).get("push", False)\<close> is truthy.
\<close>

definition has_push :: "json \<Rightarrow> error + bool" where
  "has_push repo =
     bind_err (py_get repo ''permissions'' (JObj []))
       (\<lambda>permissions. bind_err (py_get permissions ''push'' (JBool False))
          (\<lambda>push. Inr (py_truthy push)))"

fun push_repos :: "json list \<Rightarrow> error + json list" where
  "push_repos [] = Inr []"
| "push_repos (repo # batch) =
     (case has_push repo of
        Inl e \<Rightarrow> Inl e
      | Inr keep \<Rightarrow>
          (case push_repos batch of
             Inl e \<Rightarrow> Inl e
           | Inr kept \<Rightarrow> Inr (if keep then repo # kept else kept)))"

definition org_repos_params :: "int \<Rightarrow> (string \<times> json) list" where
  "org_repos_params page = [(''per_page'', JInt 100), (''page'', JInt page)]"

definition org_repos_url :: "(json \<Rightarrow> string) \<Rightarrow> json \<Rightarrow> string" where
  "org_repos_url fmt org_name = GITHUB_API_URL @ ''/orgs/'' @ fmt org_name @ ''/repos''"

partial_function (option) org_repos_loop ::
  "(json \<Rightarrow> string) \<Rightarrow> world \<Rightarrow> session \<Rightarrow> json \<Rightarrow> int \<Rightarrow> json list \<Rightarrow> request list
     \<Rightarrow> ((error + json list) \<times> request list) option" where
  "org_repos_loop fmt w session org_name page all_org_repos log =
     (case session_get w session (org_repos_url fmt org_name) (org_repos_params page) log of
        (Inl e, log1) \<Rightarrow> Some (Inl e, log1)
      | (Inr response, log1) \<Rightarrow>
          (case raise_for_status response of
             Inl e \<Rightarrow> Some (Inl e, log1)
           | Inr _ \<Rightarrow>
               (case json_of response of
                  Inl e \<Rightarrow> Some (Inl e, log1)
                | Inr batch \<Rightarrow>
                    if \<not> py_truthy batch then Some (Inr all_org_repos, log1)
                    else (case bind_err (py_iter batch) push_repos of
                            Inl e \<Rightarrow> Some (Inl e, log1)
                          | Inr kept \<Rightarrow>
                              org_repos_loop fmt w session org_name (page + 1)
                                (all_org_repos @ kept) log1))))"

text \<open>The \<open>for org in orgs\<close> loop around it.\<close>

fun orgs_loop ::
  "(json \<Rightarrow> string) \<Rightarrow> world \<Rightarrow> session \<Rightarrow> json list \<Rightarrow> json list \<Rightarrow> request list
     \<Rightarrow> ((error + json list) \<times> request list) option" where
  "orgs_loop fmt w session [] all_org_repos log = Some (Inr all_org_repos, log)"
| "orgs_loop fmt w session (org # orgs) all_org_repos log =
     (case py_index org ''login'' of
        Inl e \<Rightarrow> Some (Inl e, log)
      | Inr org_name \<Rightarrow>
          (case org_repos_loop fmt w session org_name 1 all_org_repos log of
             None \<Rightarrow> None
           | Some (Inl e, log1) \<Rightarrow> Some (Inl e, log1)
           | Some (Inr repos1, log1) \<Rightarrow> orgs_loop fmt w session orgs repos1 log1))"

definition get_org_repos ::
  "(json \<Rightarrow> string) \<Rightarrow> world \<Rightarrow> session \<Rightarrow> request list
     \<Rightarrow> ((error + json list) \<times> request list) option" where
  "get_org_repos fmt w session log =
     (case session_get w session (GITHUB_API_URL @ ''/user/orgs'') [] log of
        (Inl e, log1) \<Rightarrow> Some (Inl e, log1)
      | (Inr orgs_response, log1) \<Rightarrow>
          (case raise_for_status orgs_response of
             Inl e \<Rightarrow> Some (Inl e, log1)
           | Inr _ \<Rightarrow>
               (case bind_err (json_of orgs_response) py_iter of
                  Inl e \<Rightarrow> Some (Inl e, log1)
                | Inr orgs \<Rightarrow> orgs_loop fmt w session orgs [] log1)))"

section \<open>The contribution scanner\<close>

text \<open>
  Lines 131-133 and 136-138 (and again 174-176, 179-181): one person object,
  \<open>if author and "email" in author: emails.add(author["email"])\<close>.
\<close>

definition add_email :: "json \<Rightarrow> json set \<Rightarrow> error + json set" where
  "add_email person emails =
     (if py_truthy person then
        bind_err (py_contains ''email'' person)
          (\<lambda>present. if present then bind_err (py_index person ''email'') (\<lambda>e. py_set_add e emails)
                      else Inr emails)
      else Inr emails)"

text \<open>The body of \<open>for commit in commits\<close>: author first, then committer.\<close>

definition commit_emails :: "json \<Rightarrow> json set \<Rightarrow> error + json set" where
  "commit_emails commit emails =
     bind_err (py_get commit ''commit'' (JObj []))
       (\<lambda>c. bind_err (py_get c ''author'' (JObj []))
          (\<lambda>author. bind_err (add_email author emails)
             (\<lambda>emails1. bind_err (py_get commit ''commit'' (JObj []))
                (\<lambda>c'. bind_err (py_get c' ''committer'' (JObj []))
                   (\<lambda>committer. add_email committer emails1)))))"

fun scan_commits :: "json list \<Rightarrow> json set \<Rightarrow> error + json set" where
  "scan_commits [] emails = Inr emails"
| "scan_commits (commit # commits) emails =
     (case commit_emails commit emails of
        Inl e \<Rightarrow> Inl e
      | Inr emails1 \<Rightarrow> scan_commits commits emails1)"

definition commits_url :: "(json \<Rightarrow> string) \<Rightarrow> json \<Rightarrow> json \<Rightarrow> string" where
  "commits_url fmt repo_owner repo_name =
     GITHUB_API_URL @ ''/repos/'' @ fmt repo_owner @ ''/'' @ fmt repo_name @ ''/commits''"

definition commits_params :: "string \<Rightarrow> int \<Rightarrow> (string \<times> json) list" where
  "commits_params username page =
     [(''author'', JStr username), (''per_page'', JInt 100), (''page'', JInt page)]"

text \<open>The commit scan (lines 114-140). A status other than 200 leaves the loop.\<close>

partial_function (option) commits_loop ::
  "(json \<Rightarrow> string) \<Rightarrow> world \<Rightarrow> session \<Rightarrow> json \<Rightarrow> json \<Rightarrow> string \<Rightarrow> int \<Rightarrow> json set
     \<Rightarrow> request list \<Rightarrow> ((error + json set) \<times> request list) option" where
  "commits_loop fmt w session repo_owner repo_name username page emails log =
     (case session_get w session (commits_url fmt repo_owner repo_name)
             (commits_params username page) log of
        (Inl e, log1) \<Rightarrow> Some (Inl e, log1)
      | (Inr commits_response, log1) \<Rightarrow>
          if status_code commits_response \<noteq> 200 then Some (Inr emails, log1)
          else (case json_of commits_response of
                  Inl e \<Rightarrow> Some (Inl e, log1)
                | Inr commits \<Rightarrow>
                    if \<not> py_truthy commits then Some (Inr emails, log1)
                    else (case bind_err (py_iter commits) (\<lambda>cs. scan_commits cs emails) of
                            Inl e \<Rightarrow> Some (Inl e, log1)
                          | Inr emails1 \<Rightarrow>
                              commits_loop fmt w session repo_owner repo_name username
                                (page + 1) emails1 log1)))"

text \<open>
  The pull-request scan (lines 143-183). \<open>username\<close> is a string, as the signature of
  \<open>get_contribution_emails\<close> declares it: \<open>x == username\<close> then holds exactly when \<open>x\<close> is
  that string. \<open>.get("login")\<close> without a default yields None.
\<close>

definition opened_by :: "string \<Rightarrow> json \<Rightarrow> error + bool" where
  "opened_by username pr =
     bind_err (py_get pr ''user'' (JObj []))
       (\<lambda>user. bind_err (py_get user ''login'' JNull)
          (\<lambda>login. Inr (login = JStr username)))"

fun user_prs :: "string \<Rightarrow> json list \<Rightarrow> error + json list" where
  "user_prs username [] = Inr []"
| "user_prs username (pr # prs) =
     (case opened_by username pr of
        Inl e \<Rightarrow> Inl e
      | Inr mine \<Rightarrow>
          (case user_prs username prs of
             Inl e \<Rightarrow> Inl e
           | Inr kept \<Rightarrow> Inr (if mine then pr # kept else kept)))"

definition pulls_url :: "(json \<Rightarrow> string) \<Rightarrow> json \<Rightarrow> json \<Rightarrow> string" where
  "pulls_url fmt repo_owner repo_name =
     GITHUB_API_URL @ ''/repos/'' @ fmt repo_owner @ ''/'' @ fmt repo_name @ ''/pulls''"

definition pulls_params :: "int \<Rightarrow> (string \<times> json) list" where
  "pulls_params page = [(''state'', JStr ''all''), (''per_page'', JInt 100), (''page'', JInt page)]"

definition pr_commits_url :: "(json \<Rightarrow> string) \<Rightarrow> json \<Rightarrow> json \<Rightarrow> json \<Rightarrow> string" where
  "pr_commits_url fmt repo_owner repo_name pr_number =
     GITHUB_API_URL @ ''/repos/'' @ fmt repo_owner @ ''/'' @ fmt repo_name
       @ ''/pulls/'' @ fmt pr_number @ ''/commits''"

text \<open>\<open>for pr in user_prs\<close> (lines 162-181): one request for each pull request.\<close>

fun prs_loop ::
  "(json \<Rightarrow> string) \<Rightarrow> world \<Rightarrow> session \<Rightarrow> json \<Rightarrow> json \<Rightarrow> json list \<Rightarrow> json set
     \<Rightarrow> request list \<Rightarrow> (error + json set) \<times> request list" where
  "prs_loop fmt w session repo_owner repo_name [] emails log = (Inr emails, log)"
| "prs_loop fmt w session repo_owner repo_name (pr # prs) emails log =
     (case py_index pr ''number'' of
        Inl e \<Rightarrow> (Inl e, log)
      | Inr pr_number \<Rightarrow>
          (case session_get w session (pr_commits_url fmt repo_owner repo_name pr_number) [] log of
             (Inl e, log1) \<Rightarrow> (Inl e, log1)
           | (Inr pr_commits_response, log1) \<Rightarrow>
               if status_code pr_commits_response = 200 then
                 (case bind_err (json_of pr_commits_response)
                         (\<lambda>pr_commits. bind_err (py_iter pr_commits)
                            (\<lambda>cs. scan_commits cs emails)) of
                    Inl e \<Rightarrow> (Inl e, log1)
                  | Inr emails1 \<Rightarrow> prs_loop fmt w session repo_owner repo_name prs emails1 log1)
               else prs_loop fmt w session repo_owner repo_name prs emails log1))"

partial_function (option) pulls_loop ::
  "(json \<Rightarrow> string) \<Rightarrow> world \<Rightarrow> session \<Rightarrow> json \<Rightarrow> json \<Rightarrow> string \<Rightarrow> int \<Rightarrow> json set
     \<Rightarrow> request list \<Rightarrow> ((error + json set) \<times> request list) option" where
  "pulls_loop fmt w session repo_owner repo_name username page emails log =
     (case session_get w session (pulls_url fmt repo_owner repo_name) (pulls_params page) log of
        (Inl e, log1) \<Rightarrow> Some (Inl e, log1)
      | (Inr prs_response, log1) \<Rightarrow>
          if status_code prs_response \<noteq> 200 then Some (Inr emails, log1)
          else (case json_of prs_response of
                  Inl e \<Rightarrow> Some (Inl e, log1)
                | Inr prs \<Rightarrow>
                    if \<not> py_truthy prs then Some (Inr emails, log1)
                    else (case bind_err (py_iter prs) (user_prs username) of
                            Inl e \<Rightarrow> Some (Inl e, log1)
                          | Inr mine \<Rightarrow>
                              (case prs_loop fmt w session repo_owner repo_name mine emails log1 of
                                 (Inl e, log2) \<Rightarrow> Some (Inl e, log2)
                               | (Inr emails1, log2) \<Rightarrow>
                                   pulls_loop fmt w session repo_owner repo_name username
                                     (page + 1) emails1 log2))))"

definition get_contribution_emails ::
  "(json \<Rightarrow> string) \<Rightarrow> world \<Rightarrow> session \<Rightarrow> json \<Rightarrow> json \<Rightarrow> string \<Rightarrow> request list
     \<Rightarrow> ((error + json set) \<times> request list) option" where
  "get_contribution_emails fmt w session repo_owner repo_name username log =
     (case commits_loop fmt w session repo_owner repo_name username 1 {} log of
        None \<Rightarrow> None
      | Some (Inl e, log1) \<Rightarrow> Some (Inl e, log1)
      | Some (Inr emails, log1) \<Rightarrow>
          pulls_loop fmt w session repo_owner repo_name username 1 emails log1)"

section \<open>The aggregator\<close>

text \<open>
  Lines 229-240 of \<open>main\<close>: \<open>all_emails\<close> is a set, \<open>repo_emails\<close> a dict from the text
  \<open>owner/name\<close> to a set. The counter of \<open>enumerate\<close> is only printed.
\<close>

definition repo_key :: "(json \<Rightarrow> string) \<Rightarrow> json \<Rightarrow> json \<Rightarrow> string" where
  "repo_key fmt repo_owner repo_name = fmt repo_owner @ ''/'' @ fmt repo_name"

fun analyze ::
  "(json \<Rightarrow> string) \<Rightarrow> world \<Rightarrow> session \<Rightarrow> string \<Rightarrow> json list
     \<Rightarrow> json set \<Rightarrow> (string \<rightharpoonup> json set) \<Rightarrow> request list
     \<Rightarrow> ((error + json set \<times> (string \<rightharpoonup> json set)) \<times> request list) option" where
  "analyze fmt w session username [] all_emails repo_emails log =
     Some (Inr (all_emails, repo_emails), log)"
| "analyze fmt w session username (repo # repos) all_emails repo_emails log =
     (case bind_err (py_index repo ''owner'') (\<lambda>owner. py_index owner ''login'') of
        Inl e \<Rightarrow> Some (Inl e, log)
      | Inr repo_owner \<Rightarrow>
          (case py_index repo ''name'' of
             Inl e \<Rightarrow> Some (Inl e, log)
           | Inr repo_name \<Rightarrow>
               (case get_contribution_emails fmt w session repo_owner repo_name username log of
                  None \<Rightarrow> None
                | Some (Inl e, log1) \<Rightarrow> Some (Inl e, log1)
                | Some (Inr emails, log1) \<Rightarrow>
                    if emails \<noteq> {} then
                      analyze fmt w session username repos (all_emails \<union> emails)
                        (repo_emails(repo_key fmt repo_owner repo_name \<mapsto> emails)) log1
                    else analyze fmt w session username repos all_emails repo_emails log1)))"

text \<open>
  The body of the \<open>try\<close> block up to the report. \<open>user["login"]\<close> is handed on as
  \<open>username: str\<close>.
\<close>

definition as_str :: "json \<Rightarrow> error + string" where
  "as_str v = (case v of JStr s \<Rightarrow> Inr s | _ \<Rightarrow> Inl IllTyped)"

definition collect ::
  "(json \<Rightarrow> string) \<Rightarrow> world \<Rightarrow> string
     \<Rightarrow> ((error + json set \<times> (string \<rightharpoonup> json set)) \<times> request list) option" where
  "collect fmt w token =
     (case get_authenticated_user w (create_github_session token) [] of
        (Inl e, log1) \<Rightarrow> Some (Inl e, log1)
      | (Inr user, log1) \<Rightarrow>
          (case bind_err (py_index user ''login'') as_str of
             Inl e \<Rightarrow> Some (Inl e, log1)
           | Inr username \<Rightarrow>
               (case get_user_repos w (create_github_session token) log1 of
                  None \<Rightarrow> None
                | Some (Inl e, log2) \<Rightarrow> Some (Inl e, log2)
                | Some (Inr user_repos, log2) \<Rightarrow>
                    (case get_org_repos fmt w (create_github_session token) log2 of
                       None \<Rightarrow> None
                     | Some (Inl e, log3) \<Rightarrow> Some (Inl e, log3)
                     | Some (Inr org_repos, log3) \<Rightarrow>
                         analyze fmt w (create_github_session token) username
                           (user_repos @ org_repos) {} Map.empty log3))))"

text \<open>
  \<open>main\<close>. \<open>token\<close> is \<open>args.token\<close>: \<open>None\<close> without \<open>--token\<close>, else the text given.
  The outcome is what ends the run: \<open>sys.exit\<close> with a status after printing a line, an
  exception no handler of \<open>main\<close> catches, or the report of the two aggregates. The
  progress lines and the layout of the report are not described here, nor is an
  interrupt from the keyboard.
\<close>

datatype line = Text string | ErrorText error

datatype outcome =
    SysExit int line
  | Uncaught error
  | Report "json set" "string \<rightharpoonup> json set"

text \<open>\<open>not token\<close>: None and the empty string are falsy.\<close>

fun not_token :: "string option \<Rightarrow> bool" where
  "not_token None = True"
| "not_token (Some t) = (t = [])"

definition main :: "(json \<Rightarrow> string) \<Rightarrow> world \<Rightarrow> string option \<Rightarrow> (outcome \<times> request list) option" where
  "main fmt w token =
     (if not_token token then
        Some (SysExit 1 (Text ''Please provide a token using the --token argument.''), [])
      else
        (case collect fmt w (case token of None \<Rightarrow> [] | Some t \<Rightarrow> t) of
           None \<Rightarrow> None
         | Some (Inl e, log) \<Rightarrow>
             if is_request_exception e then Some (SysExit 1 (ErrorText e), log)
             else Some (Uncaught e, log)
         | Some (Inr (all_emails, repo_emails), log) \<Rightarrow>
             Some (Report all_emails repo_emails, log)))"

section \<open>Specification predicates and concrete runs\<close>

text \<open>
  A rendering to instantiate \<open>fmt\<close> in concrete runs: Python's \<open>str\<close> on None,
  booleans, integers and strings. Lists and dicts are never rendered in those runs.
\<close>

function show_nat :: "nat \<Rightarrow> string" where
  "show_nat n =
     (if n < 10 then [''0123456789'' ! n]
      else show_nat (n div 10) @ [''0123456789'' ! (n mod 10)])"
  by pat_completeness auto
termination
  by (relation "measure id") auto

fun py_str :: "json \<Rightarrow> string" where
  "py_str JNull = ''None''"
| "py_str (JBool b) = (if b then ''True'' else ''False'')"
| "py_str (JInt n) = (if n < 0 then ''-'' @ show_nat (nat (- n)) else show_nat (nat n))"
| "py_str (JStr s) = s"
| "py_str (JArr xs) = []"
| "py_str (JObj kvs) = []"

text \<open>Replies: status 200 with a body, and an error status with GitHub's message body.\<close>

definition ok :: "json \<Rightarrow> response option" where
  "ok j = Some \<lparr>status_code = 200, body = Some j\<rparr>"

definition failure :: "int \<Rightarrow> response option" where
  "failure n = Some \<lparr>status_code = n, body = Some (JObj [(''message'', JStr ''error'')])\<rparr>"


subsection \<open>Listings served in pages\<close>

text \<open>
  A source of \<open>total_items\<close> items served in pages of 100: \<open>page_of items p\<close> is its
  page \<open>p\<close> (pages counted from 1), \<open>pages n\<close> is the number of pages that are not
  empty, that is \<open>ceil(n/100)\<close>.
\<close>

definition page_of :: "json list \<Rightarrow> int \<Rightarrow> json list" where
  "page_of items p = take 100 (drop (100 * nat (p - 1)) items)"

definition pages :: "nat \<Rightarrow> nat" where
  "pages n = (n + 99) div 100"

text \<open>
  The requests as the program builds them: the two unpaged ones of the enumeration,
  and the request for page \<open>p\<close> of each of the four listings.
\<close>

definition user_request :: "session \<Rightarrow> request" where
  "user_request session = GET (GITHUB_API_URL @ ''/user'') [] session"

definition orgs_request :: "session \<Rightarrow> request" where
  "orgs_request session = GET (GITHUB_API_URL @ ''/user/orgs'') [] session"

definition user_repos_request :: "session \<Rightarrow> int \<Rightarrow> request" where
  "user_repos_request session p = GET (GITHUB_API_URL @ ''/user/repos'') (user_repos_params p) session"

definition org_repos_request :: "(json \<Rightarrow> string) \<Rightarrow> session \<Rightarrow> json \<Rightarrow> int \<Rightarrow> request" where
  "org_repos_request fmt session org_name p =
     GET (org_repos_url fmt org_name) (org_repos_params p) session"

definition commits_request ::
  "(json \<Rightarrow> string) \<Rightarrow> session \<Rightarrow> json \<Rightarrow> json \<Rightarrow> string \<Rightarrow> int \<Rightarrow> request" where
  "commits_request fmt session repo_owner repo_name username p =
     GET (commits_url fmt repo_owner repo_name) (commits_params username p) session"

definition pulls_request :: "(json \<Rightarrow> string) \<Rightarrow> session \<Rightarrow> json \<Rightarrow> json \<Rightarrow> int \<Rightarrow> request" where
  "pulls_request fmt session repo_owner repo_name p =
     GET (pulls_url fmt repo_owner repo_name) (pulls_params p) session"

text \<open>
  \<open>serves w request items\<close>: whenever it is asked, the network answers the request for
  page \<open>p\<close> with status 200 and page \<open>p\<close> of \<open>items\<close>. \<open>breaks w request items k response\<close>:
  it does so for the first \<open>k\<close> pages, none of them empty, and answers the request
  for the next page with \<open>response\<close>, whose status is 4xx or 5xx.
\<close>

definition serves :: "world \<Rightarrow> (int \<Rightarrow> request) \<Rightarrow> json list \<Rightarrow> bool" where
  "serves w request items = (\<forall>n p. 1 \<le> p \<longrightarrow> w n (request p) = ok (JArr (page_of items p)))"

definition breaks :: "world \<Rightarrow> (int \<Rightarrow> request) \<Rightarrow> json list \<Rightarrow> nat \<Rightarrow> response \<Rightarrow> bool" where
  "breaks w request items k response =
     ((\<forall>n p. 1 \<le> p \<and> p \<le> int k \<longrightarrow> w n (request p) = ok (JArr (page_of items p)))
      \<and> k \<le> pages (length items)
      \<and> (\<forall>n. w n (request (int k + 1)) = Some response)
      \<and> 400 \<le> status_code response \<and> status_code response < 600)"

text \<open>
  The organizations: \<open>org_login\<close> is \<open>org["login"]\<close> of an entry that has the key
  (\<open>org_entry\<close>), and \<open>org_pages\<close> the page requests for an organization whose
  repositories are \<open>listing\<close> of its login.
\<close>

definition org_login :: "json \<Rightarrow> json" where
  "org_login org = (case py_index org ''login'' of Inr v \<Rightarrow> v | Inl _ \<Rightarrow> JNull)"

definition org_entry :: "json \<Rightarrow> bool" where
  "org_entry org = (case py_index org ''login'' of Inr _ \<Rightarrow> True | Inl _ \<Rightarrow> False)"

definition org_pages ::
  "(json \<Rightarrow> string) \<Rightarrow> session \<Rightarrow> (json \<Rightarrow> json list) \<Rightarrow> json \<Rightarrow> request list" where
  "org_pages fmt session listing org =
     map (org_repos_request fmt session (org_login org))
       [1..int (pages (length (listing (org_login org)))) + 1]"

text \<open>The organization \<open>acme\<close>, as the listing of the organizations shows it.\<close>

definition acme_org :: json where
  "acme_org = JObj [(''login'', JStr ''acme'')]"

text \<open>
  Claim C3. \<open>reports_push_true\<close>: the entry has a permissions object whose \<open>push\<close> is
  true. \<open>repo_entry\<close>: the entry has the shape the interface documents, a dict whose
  permissions, when present, is a dict whose \<open>push\<close>, when present, is a boolean.
\<close>

fun reports_push_true :: "json \<Rightarrow> bool" where
  "reports_push_true (JObj kvs) =
     (case map_of kvs ''permissions'' of
        Some (JObj ps) \<Rightarrow> map_of ps ''push'' = Some (JBool True)
      | _ \<Rightarrow> False)"
| "reports_push_true _ = False"

fun is_bool :: "json \<Rightarrow> bool" where
  "is_bool (JBool _) = True"
| "is_bool _ = False"

fun repo_entry :: "json \<Rightarrow> bool" where
  "repo_entry (JObj kvs) =
     (case map_of kvs ''permissions'' of
        None \<Rightarrow> True
      | Some (JObj ps) \<Rightarrow> (case map_of ps ''push'' of None \<Rightarrow> True | Some v \<Rightarrow> is_bool v)
      | Some _ \<Rightarrow> False)"
| "repo_entry _ = False"

text \<open>
  A run of the enumeration: the user belongs to \<open>acme\<close>, whose first page lists the
  repository \<open>tool\<close> twice over, once with push access and once without, and a
  repository without a permissions object.
\<close>

definition tool_repo :: "bool \<Rightarrow> json" where
  "tool_repo push =
     JObj [(''name'', JStr ''tool''), (''owner'', JObj [(''login'', JStr ''acme'')]),
           (''permissions'', JObj [(''admin'', JBool False), (''push'', JBool push)])]"

definition bare_repo :: json where
  "bare_repo = JObj [(''name'', JStr ''bare''), (''owner'', JObj [(''login'', JStr ''acme'')])]"

definition acme_world :: world where
  "acme_world n r =
     (if url r = ''https://api.github.com/user/orgs'' then
        ok (JArr [JObj [(''login'', JStr ''acme'')]])
      else if url r = ''https://api.github.com/orgs/acme/repos'' then
        (if params r = org_repos_params 1 then ok (JArr [tool_repo True, tool_repo False, bare_repo])
         else ok (JArr []))
      else None)"


text \<open>
  Claim C4. \<open>nested_commit\<close> is the dict that \<open>commit.get("commit", {})\<close> yields on a
  commit entry: its \<open>commit\<close> object, or the empty dict when the key is missing. It is
  undefined on an entry that is no dict or whose \<open>commit\<close> is no dict (there \<open>.get\<close>
  raises).
\<close>

fun nested_commit :: "json \<Rightarrow> (string \<times> json) list option" where
  "nested_commit (JObj kvs) =
     (case map_of kvs ''commit'' of
        None \<Rightarrow> Some []
      | Some (JObj c) \<Rightarrow> Some c
      | Some _ \<Rightarrow> None)"
| "nested_commit _ = None"

text \<open>The commit of the scenario in the specification: author and committer are the same.\<close>

definition alice_commit :: json where
  "alice_commit =
     JObj [(''sha'', JStr ''c0ffee''),
           (''commit'', JObj [(''author'', JObj [(''name'', JStr ''Alice''), (''email'', JStr ''alice@x.com'')]),
                            (''committer'', JObj [(''name'', JStr ''Alice''), (''email'', JStr ''alice@x.com'')])])]"


text \<open>
  \<open>pr_login\<close> is the login of the opener of a pull request entry, when the
  entry has a \<open>user\<close> object with that key. \<open>pr_entry\<close>: the entry is a dict whose
  \<open>user\<close>, when present, is a dict. \<open>pr_commits_request\<close> is the request of lines
  165-167 for an entry.
\<close>

fun pr_login :: "json \<Rightarrow> json option" where
  "pr_login (JObj kvs) =
     (case map_of kvs ''user'' of Some (JObj u) \<Rightarrow> map_of u ''login'' | _ \<Rightarrow> None)"
| "pr_login _ = None"

fun pr_entry :: "json \<Rightarrow> bool" where
  "pr_entry (JObj kvs) =
     (case map_of kvs ''user'' of None \<Rightarrow> True | Some (JObj u) \<Rightarrow> True | Some _ \<Rightarrow> False)"
| "pr_entry _ = False"

definition pr_commits_request ::
  "(json \<Rightarrow> string) \<Rightarrow> session \<Rightarrow> json \<Rightarrow> json \<Rightarrow> json \<Rightarrow> request" where
  "pr_commits_request fmt session repo_owner repo_name pr =
     GET (pr_commits_url fmt repo_owner repo_name
            (case py_index pr ''number'' of Inr n \<Rightarrow> n | Inl _ \<Rightarrow> JNull)) [] session"

text \<open>The entry of pull request \<open>n\<close> opened by \<open>login\<close>.\<close>

definition pull :: "int \<Rightarrow> string \<Rightarrow> json" where
  "pull n login = JObj [(''number'', JInt n), (''user'', JObj [(''login'', JStr login)])]"

text \<open>
  Claim C5. A pull request whose opener is not on record: the interface sends
  \<open>"user": null\<close>. \<open>ghost_world\<close> is \<open>alice\<close> with her repository \<open>alice/proj\<close>, which has
  no commit of hers and two pull requests, her own and that one.
\<close>

definition ghost_pull :: json where
  "ghost_pull = JObj [(''number'', JInt 7), (''user'', JNull)]"

definition ghost_world :: world where
  "ghost_world n r =
     (if url r = ''https://api.github.com/user'' then ok (JObj [(''login'', JStr ''alice'')])
      else if url r = ''https://api.github.com/user/repos'' then
        (if params r = user_repos_params 1
         then ok (JArr [JObj [(''name'', JStr ''proj''), (''owner'', JObj [(''login'', JStr ''alice'')])]])
         else ok (JArr []))
      else if url r = ''https://api.github.com/repos/alice/proj/pulls'' then
        (if params r = pulls_params 1 then ok (JArr [pull 1 ''alice'', ghost_pull]) else ok (JArr []))
      else ok (JArr []))"

definition ghost_log :: "request list" where
  "ghost_log =
     [GET ''https://api.github.com/user'' [] (create_github_session ''ghp_1''),
      GET ''https://api.github.com/user/repos'' (user_repos_params 1) (create_github_session ''ghp_1''),
      GET ''https://api.github.com/user/repos'' (user_repos_params 2) (create_github_session ''ghp_1''),
      GET ''https://api.github.com/user/orgs'' [] (create_github_session ''ghp_1''),
      GET ''https://api.github.com/repos/alice/proj/commits'' (commits_params ''alice'' 1)
        (create_github_session ''ghp_1''),
      GET ''https://api.github.com/repos/alice/proj/pulls'' (pulls_params 1)
        (create_github_session ''ghp_1'')]"

text \<open>
  Claim C6, the scenario of the specification: the commit listing of \<open>alice/proj\<close> is
  answered with 403, while the pull-request listing and the commits of pull request 1
  are served.
\<close>

definition forbidden_world :: world where
  "forbidden_world n r =
     (if url r = ''https://api.github.com/repos/alice/proj/commits'' then failure 403
      else if url r = ''https://api.github.com/repos/alice/proj/pulls'' then
        (if params r = pulls_params 1 then ok (JArr [pull 1 ''alice'', pull 3 ''bob''])
         else ok (JArr []))
      else if url r = ''https://api.github.com/repos/alice/proj/pulls/1/commits'' then
        ok (JArr [alice_commit])
      else None)"


text \<open>
  Claims C7, C1: the first scenario of the specification. \<open>alice\<close> owns \<open>alice/proj\<close>,
  belongs to no organization, and the repository has one commit and no pull request.
\<close>

definition proj_repo :: json where
  "proj_repo = JObj [(''name'', JStr ''proj''), (''owner'', JObj [(''login'', JStr ''alice'')])]"

definition alice_world :: world where
  "alice_world n r =
     (if url r = ''https://api.github.com/user'' then ok (JObj [(''login'', JStr ''alice'')])
      else if url r = ''https://api.github.com/user/repos'' then
        (if params r = user_repos_params 1 then ok (JArr [proj_repo]) else ok (JArr []))
      else if url r = ''https://api.github.com/user/orgs'' then ok (JArr [])
      else if url r = ''https://api.github.com/repos/alice/proj/commits'' then
        (if params r = commits_params ''alice'' 1 then ok (JArr [alice_commit]) else ok (JArr []))
      else if url r = ''https://api.github.com/repos/alice/proj/pulls'' then ok (JArr [])
      else None)"

definition prompt :: line where
  "prompt = Text ''Please provide a token using the --token argument.''"


text \<open>
  Claim C9. A repository whose first page lists the pull requests 1 and 2 and whose
  second page lists pull request 5, all opened by \<open>alice\<close>; the commits of pull
  request 1 cannot be fetched (404).
\<close>

definition mail_commit :: "string \<Rightarrow> json" where
  "mail_commit address =
     JObj [(''commit'', JObj [(''author'', JObj [(''email'', JStr address)]),
                            (''committer'', JObj [(''email'', JStr address)])])]"

definition skipping_world :: world where
  "skipping_world n r =
     (if url r = ''https://api.github.com/repos/alice/proj/pulls'' then
        (if params r = pulls_params 1 then ok (JArr [pull 1 ''alice'', pull 2 ''alice''])
         else if params r = pulls_params 2 then ok (JArr [pull 5 ''alice''])
         else ok (JArr []))
      else if url r = ''https://api.github.com/repos/alice/proj/pulls/1/commits'' then failure 404
      else if url r = ''https://api.github.com/repos/alice/proj/pulls/2/commits'' then
        ok (JArr [mail_commit ''alice@x.com''])
      else if url r = ''https://api.github.com/repos/alice/proj/pulls/5/commits'' then
        ok (JArr [mail_commit ''alice@work.com''])
      else None)"


text \<open>
  Claims C1 and C10 speak about the results of the scans that the loop of lines
  229-240 performs. \<open>scans\<close> lists them in order, each with the key of its
  repository; it makes the same calls as \<open>analyze\<close> and is defined when every scan
  returns a set. \<open>record_scan\<close> is what lines 238-239 do to the mapping with one
  such result.
\<close>

fun scans ::
  "(json \<Rightarrow> string) \<Rightarrow> world \<Rightarrow> session \<Rightarrow> string \<Rightarrow> json list \<Rightarrow> request list
     \<Rightarrow> (string \<times> json set) list option" where
  "scans fmt w session username [] log = Some []"
| "scans fmt w session username (repo # repos) log =
     (case bind_err (py_index repo ''owner'') (\<lambda>owner. py_index owner ''login'') of
        Inl e \<Rightarrow> None
      | Inr repo_owner \<Rightarrow>
          (case py_index repo ''name'' of
             Inl e \<Rightarrow> None
           | Inr repo_name \<Rightarrow>
               (case get_contribution_emails fmt w session repo_owner repo_name username log of
                  None \<Rightarrow> None
                | Some (Inl e, log1) \<Rightarrow> None
                | Some (Inr emails, log1) \<Rightarrow>
                    (case scans fmt w session username repos log1 of
                       None \<Rightarrow> None
                     | Some rest \<Rightarrow> Some ((repo_key fmt repo_owner repo_name, emails) # rest)))))"

definition record_scan :: "(string \<rightharpoonup> json set) \<Rightarrow> string \<times> json set \<Rightarrow> (string \<rightharpoonup> json set)" where
  "record_scan repo_emails scan =
     (if snd scan \<noteq> {} then repo_emails(fst scan \<mapsto> snd scan) else repo_emails)"

text \<open>
  A run in which \<open>alice/proj\<close> is listed twice (the listing shifted by one between
  the requests for page 1 and page 2) and its history changed between the two scans:
  the commit listing shows the address \<open>alice@x.com\<close> up to the eighth request of the
  run and \<open>alice@work.com\<close> afterwards.
\<close>

definition twice_world :: world where
  "twice_world n r =
     (if url r = ''https://api.github.com/user'' then ok (JObj [(''login'', JStr ''alice'')])
      else if url r = ''https://api.github.com/user/repos'' then
        (if params r = user_repos_params 1 \<or> params r = user_repos_params 2
         then ok (JArr [proj_repo]) else ok (JArr []))
      else if url r = ''https://api.github.com/user/orgs'' then ok (JArr [])
      else if url r = ''https://api.github.com/repos/alice/proj/commits'' then
        (if params r = commits_params ''alice'' 1
         then ok (JArr [mail_commit (if n < 8 then ''alice@x.com'' else ''alice@work.com'')])
         else ok (JArr []))
      else if url r = ''https://api.github.com/repos/alice/proj/pulls'' then ok (JArr [])
      else None)"

text \<open>The requests made before the aggregation loop starts, in the two runs.\<close>

definition alice_listing :: "request list" where
  "alice_listing =
     [GET ''https://api.github.com/user'' [] (create_github_session ''ghp_1''),
      GET ''https://api.github.com/user/repos'' (user_repos_params 1) (create_github_session ''ghp_1''),
      GET ''https://api.github.com/user/repos'' (user_repos_params 2) (create_github_session ''ghp_1''),
      GET ''https://api.github.com/user/orgs'' [] (create_github_session ''ghp_1'')]"

definition twice_listing :: "request list" where
  "twice_listing =
     [GET ''https://api.github.com/user'' [] (create_github_session ''ghp_1''),
      GET ''https://api.github.com/user/repos'' (user_repos_params 1) (create_github_session ''ghp_1''),
      GET ''https://api.github.com/user/repos'' (user_repos_params 2) (create_github_session ''ghp_1''),
      GET ''https://api.github.com/user/repos'' (user_repos_params 3) (create_github_session ''ghp_1''),
      GET ''https://api.github.com/user/orgs'' [] (create_github_session ''ghp_1'')]"

text \<open>The three requests of one scan of \<open>alice/proj\<close> in these runs.\<close>

definition proj_scan :: "request list" where
  "proj_scan =
     [GET ''https://api.github.com/repos/alice/proj/commits'' (commits_params ''alice'' 1) (create_github_session ''ghp_1''),
      GET ''https://api.github.com/repos/alice/proj/commits'' (commits_params ''alice'' 2) (create_github_session ''ghp_1''),
      GET ''https://api.github.com/repos/alice/proj/pulls'' (pulls_params 1) (create_github_session ''ghp_1'')]"


text \<open>
  Claim C2. \<open>alice\<close> owns nothing and belongs to the organizations \<open>acme\<close> and \<open>beta\<close>;
  the repository listing of \<open>acme\<close> is answered with 404.
\<close>

definition failing_world :: world where
  "failing_world n r =
     (if url r = ''https://api.github.com/user'' then ok (JObj [(''login'', JStr ''alice'')])
      else if url r = ''https://api.github.com/user/repos'' then ok (JArr [])
      else if url r = ''https://api.github.com/user/orgs'' then
        ok (JArr [JObj [(''login'', JStr ''acme'')], JObj [(''login'', JStr ''beta'')]])
      else if url r = ''https://api.github.com/orgs/acme/repos'' then failure 404
      else ok (JArr []))"

definition failing_log :: "request list" where
  "failing_log =
     [GET ''https://api.github.com/user'' [] (create_github_session ''ghp_1''),
      GET ''https://api.github.com/user/repos'' (user_repos_params 1) (create_github_session ''ghp_1''),
      GET ''https://api.github.com/user/orgs'' [] (create_github_session ''ghp_1''),
      GET ''https://api.github.com/orgs/acme/repos'' (org_repos_params 1) (create_github_session ''ghp_1'')]"

text \<open>
  A failure further on: \<open>acme\<close> has one repository and is listed to the end; \<open>beta\<close> has
  one on its first page, and the request for its second page is answered with 503.
\<close>

definition beta_org :: json where
  "beta_org = JObj [(''login'', JStr ''beta'')]"

definition late_world :: world where
  "late_world n r =
     (if url r = ''https://api.github.com/user'' then ok (JObj [(''login'', JStr ''alice'')])
      else if url r = ''https://api.github.com/user/repos'' then ok (JArr [])
      else if url r = ''https://api.github.com/user/orgs'' then ok (JArr [acme_org, beta_org])
      else if url r = ''https://api.github.com/orgs/acme/repos'' then
        (if params r = org_repos_params 1 then ok (JArr [tool_repo True]) else ok (JArr []))
      else if url r = ''https://api.github.com/orgs/beta/repos'' then
        (if params r = org_repos_params 1 then ok (JArr [tool_repo False]) else failure 503)
      else None)"

definition late_listing :: "json \<Rightarrow> json list" where
  "late_listing org_name = (if org_name = JStr ''acme'' then [tool_repo True] else [])"

definition late_log :: "request list" where
  "late_log =
     [user_request (create_github_session ''ghp_1''),
      user_repos_request (create_github_session ''ghp_1'') 1,
      orgs_request (create_github_session ''ghp_1''),
      org_repos_request py_str (create_github_session ''ghp_1'') (JStr ''acme'') 1,
      org_repos_request py_str (create_github_session ''ghp_1'') (JStr ''acme'') 2,
      org_repos_request py_str (create_github_session ''ghp_1'') (JStr ''beta'') 1,
      org_repos_request py_str (create_github_session ''ghp_1'') (JStr ''beta'') 2]"

subsection \<open>What a scan reads\<close>

text \<open>
  The two person objects of a commit entry, as \<open>.get("author", {})\<close> and
  \<open>.get("committer", {})\<close> yield them, and the email each contributes: the value
  under \<open>email\<close> of a dict that has the key. \<open>person_entry\<close> is the shape the interface
  documents: null or a dict whose \<open>email\<close>, when present, is no list and no dict.
\<close>

definition person_of :: "(string \<times> json) list \<Rightarrow> string \<Rightarrow> json" where
  "person_of c k = (case map_of c k of None \<Rightarrow> JObj [] | Some v \<Rightarrow> v)"

fun hashable :: "json \<Rightarrow> bool" where
  "hashable (JArr _) = False"
| "hashable (JObj _) = False"
| "hashable _ = True"

fun person_entry :: "json \<Rightarrow> bool" where
  "person_entry JNull = True"
| "person_entry (JObj p) = (case map_of p ''email'' of None \<Rightarrow> True | Some e \<Rightarrow> hashable e)"
| "person_entry _ = False"

fun person_email :: "json \<Rightarrow> json set" where
  "person_email (JObj p) = (case map_of p ''email'' of None \<Rightarrow> {} | Some e \<Rightarrow> {e})"
| "person_email _ = {}"

definition commit_entry :: "json \<Rightarrow> bool" where
  "commit_entry commit =
     (case nested_commit commit of
        None \<Rightarrow> False
      | Some c \<Rightarrow> person_entry (person_of c ''author'') \<and> person_entry (person_of c ''committer''))"

definition commit_addresses :: "json \<Rightarrow> json set" where
  "commit_addresses commit =
     (case nested_commit commit of
        None \<Rightarrow> {}
      | Some c \<Rightarrow> person_email (person_of c ''author'') \<union> person_email (person_of c ''committer''))"

definition addresses :: "json list \<Rightarrow> json set" where
  "addresses commits = (\<Union>commit\<in>set commits. commit_addresses commit)"

text \<open>
  The pull requests. \<open>opened username pr\<close>: the opener's login is the string
  \<open>username\<close>. \<open>fetches\<close>: the network answers the request for the commits of pull
  request \<open>k\<close> with \<open>fetch k\<close>, whenever it is asked. \<open>fetched fetch pr\<close> are the commits
  the reply lists when its status is 200, and \<open>fetch_entry\<close> says that the entry has
  a number and that a reply comes which, when its status is 200, carries a list.
\<close>

definition opened :: "string \<Rightarrow> json \<Rightarrow> bool" where
  "opened username pr = (pr_login pr = Some (JStr username))"

definition number_of :: "json \<Rightarrow> json" where
  "number_of pr = (case py_index pr ''number'' of Inr k \<Rightarrow> k | Inl _ \<Rightarrow> JNull)"

definition fetches ::
  "world \<Rightarrow> (json \<Rightarrow> string) \<Rightarrow> session \<Rightarrow> json \<Rightarrow> json \<Rightarrow> (json \<Rightarrow> response option) \<Rightarrow> bool" where
  "fetches w fmt session repo_owner repo_name fetch =
     (\<forall>n k. w n (GET (pr_commits_url fmt repo_owner repo_name k) [] session) = fetch k)"

definition fetched :: "(json \<Rightarrow> response option) \<Rightarrow> json \<Rightarrow> json list" where
  "fetched fetch pr =
     (case fetch (number_of pr) of
        None \<Rightarrow> []
      | Some r \<Rightarrow>
          if status_code r = 200 then (case body r of Some (JArr cs) \<Rightarrow> cs | _ \<Rightarrow> []) else [])"

definition fetch_entry :: "(json \<Rightarrow> response option) \<Rightarrow> json \<Rightarrow> bool" where
  "fetch_entry fetch pr =
     ((case py_index pr ''number'' of Inr _ \<Rightarrow> True | Inl _ \<Rightarrow> False)
      \<and> (case fetch (number_of pr) of
           None \<Rightarrow> False
         | Some r \<Rightarrow>
             if status_code r = 200 then (case body r of Some (JArr cs) \<Rightarrow> True | _ \<Rightarrow> False)
             else True))"

text \<open>
  \<open>scanned fetch username commits prs\<close>: the commits a scan of the repository
  processes, those of the commit listing and then, for each pull request that
  \<open>username\<close> opened, those fetched for it.
\<close>

definition scanned ::
  "(json \<Rightarrow> response option) \<Rightarrow> string \<Rightarrow> json list \<Rightarrow> json list \<Rightarrow> json list" where
  "scanned fetch username commits prs =
     commits @ concat (map (fetched fetch) (filter (opened username) prs))"

text \<open>
  The requests of the pull-request scan of a repository whose pull requests are
  \<open>prs\<close>: each page that is not empty, followed by the request for the commits of
  each of its pull requests that \<open>username\<close> opened, then the first empty page.
\<close>

definition pulls_page_trace ::
  "(json \<Rightarrow> string) \<Rightarrow> session \<Rightarrow> json \<Rightarrow> json \<Rightarrow> string \<Rightarrow> json list \<Rightarrow> int \<Rightarrow> request list" where
  "pulls_page_trace fmt session repo_owner repo_name username prs p =
     pulls_request fmt session repo_owner repo_name p
       # map (pr_commits_request fmt session repo_owner repo_name)
           (filter (opened username) (page_of prs p))"

definition pulls_trace ::
  "(json \<Rightarrow> string) \<Rightarrow> session \<Rightarrow> json \<Rightarrow> json \<Rightarrow> string \<Rightarrow> json list \<Rightarrow> request list" where
  "pulls_trace fmt session repo_owner repo_name username prs =
     concat (map (pulls_page_trace fmt session repo_owner repo_name username prs)
               [1..int (pages (length prs))])
       @ [pulls_request fmt session repo_owner repo_name (int (pages (length prs)) + 1)]"

text \<open>
  Claim C4, a run of the scanner: \<open>alice/proj\<close> has one commit by \<open>alice\<close> and two pull
  requests, number 1 opened by \<open>alice\<close> with one commit made under another address,
  and number 3 opened by \<open>bob\<close>. \<open>scan_fetch\<close> is the reply of this network to the
  request for the commits of a pull request.
\<close>

definition scan_world :: world where
  "scan_world n r =
     (if url r = ''https://api.github.com/repos/alice/proj/commits'' then
        (case map_of (params r) ''page'' of
           Some (JInt p) \<Rightarrow> ok (JArr (page_of [alice_commit] p))
         | _ \<Rightarrow> failure 404)
      else if url r = ''https://api.github.com/repos/alice/proj/pulls'' then
        (case map_of (params r) ''page'' of
           Some (JInt p) \<Rightarrow> ok (JArr (page_of [pull 1 ''alice'', pull 3 ''bob''] p))
         | _ \<Rightarrow> failure 404)
      else if url r = ''https://api.github.com/repos/alice/proj/pulls/1/commits'' then
        ok (JArr [mail_commit ''alice@work.com''])
      else failure 404)"

definition scan_fetch :: "json \<Rightarrow> response option" where
  "scan_fetch k = scan_world 0 (GET (pr_commits_url py_str (JStr ''alice'') (JStr ''proj'') k) [] [])"

text \<open>
  Claim C8. \<open>page_request\<close> tells a request of a paginated listing (it carries a
  \<open>page\<close> parameter) from the unpaged requests. \<open>error_or_empty w log r\<close>: the reply to
  \<open>r\<close> as the next request is an error status or an empty page.
\<close>

definition page_request :: "request \<Rightarrow> bool" where
  "page_request r = (map_of (params r) ''page'' \<noteq> None)"

definition error_or_empty :: "world \<Rightarrow> request list \<Rightarrow> request \<Rightarrow> bool" where
  "error_or_empty w log r =
     (case w (length log) r of
        None \<Rightarrow> False
      | Some response \<Rightarrow>
          (400 \<le> status_code response \<and> status_code response < 600)
          \<or> (status_code response = 200 \<and> body response = Some (JArr [])))"

text \<open>A network that serves the pages of \<open>items\<close> to any request with a page number.\<close>

definition paged_world :: "json list \<Rightarrow> world" where
  "paged_world items n r =
     (case map_of (params r) ''page'' of
        Some (JInt p) \<Rightarrow> ok (JArr (page_of items p))
      | _ \<Rightarrow> failure 404)"

text \<open>A listing of 150 entries (two pages that are not empty).\<close>

definition long_listing :: "json list" where
  "long_listing = replicate 150 (JObj [])"

text \<open>
  The same network for a user who belongs to \<open>acme\<close>, and its reply to the request
  for the commits of a pull request.
\<close>

definition listed_world :: world where
  "listed_world n r =
     (if url r = ''https://api.github.com/user/orgs'' then ok (JArr [acme_org])
      else paged_world long_listing n r)"

definition no_fetch :: "json \<Rightarrow> response option" where
  "no_fetch k = failure 404"

subsection \<open>Pages and the two repository listings\<close>

lemma pages_less: "j < pages n \<Longrightarrow> 100 * j < n"
  by (simp add: pages_def)

lemma pages_ge: "n \<le> 100 * pages n"
  by (simp add: pages_def)

lemma page_of_last: "pages (length items) \<le> j \<Longrightarrow> page_of items (int j + 1) = []"
  using pages_ge [of "length items"] by (simp add: page_of_def)

lemma page_of_nonempty: "j < pages (length items) \<Longrightarrow> page_of items (int j + 1) \<noteq> []"
  using pages_less [of j "length items"] by (simp add: page_of_def)

lemma page_of_append:
  "page_of items (int j + 1) @ drop (100 * Suc j) items = drop (100 * j) items"
proof -
  have "drop (100 * Suc j) items = drop 100 (drop (100 * j) items)"
    by (simp add: add.commute)
  moreover have "take 100 (drop (100 * j) items) @ drop 100 (drop (100 * j) items)
      = drop (100 * j) items"
    by (rule append_take_drop_id)
  ultimately show ?thesis by (simp only: page_of_def) simp
qed

lemma upto_first: "j \<le> k \<Longrightarrow> [int j + 1..int k + 1] = (int j + 1) # [int (Suc j) + 1..int k + 1]"
  by (subst upto_rec1) (simp_all add: add.commute)


lemma user_repos_stop:
  "w (length log) (user_repos_request session p) = ok (JArr [])
   \<Longrightarrow> user_repos_loop w session p repos log = Some (Inr repos, log @ [user_repos_request session p])"
  by (subst user_repos_loop.simps)
     (simp add: user_repos_request_def session_get_def ok_def raise_for_status_def json_of_def)

lemma user_repos_step:
  "w (length log) (user_repos_request session p) = ok (JArr xs)
   \<Longrightarrow> xs \<noteq> [] \<Longrightarrow> user_repos_loop w session p repos log
     = user_repos_loop w session (p + 1) (repos @ xs) (log @ [user_repos_request session p])"
  by (subst user_repos_loop.simps)
     (simp add: user_repos_request_def session_get_def ok_def raise_for_status_def json_of_def)

lemma user_repos_pages:
  assumes honest: "serves w (user_repos_request session) items"
  shows "j \<le> pages (length items) \<Longrightarrow>
    user_repos_loop w session (int j + 1) repos log
      = Some (Inr (repos @ drop (100 * j) items),
              log @ map (user_repos_request session) [int j + 1..int (pages (length items)) + 1])"
proof (induction "pages (length items) - j" arbitrary: j repos log)
  case 0
  then have j: "j = pages (length items)" by simp
  then have e: "page_of items (int j + 1) = []" by (simp add: page_of_last)
  from pages_ge [of "length items"] j have d: "drop (100 * j) items = []" by simp
  from j have u: "[int j + 1..int (pages (length items)) + 1] = [int j + 1]" by simp
  from honest e have "w (length log) (user_repos_request session (int j + 1)) = ok (JArr [])"
    by (simp add: serves_def)
  then have "user_repos_loop w session (int j + 1) repos log
     = Some (Inr repos, log @ [user_repos_request session (int j + 1)])"
    by (rule user_repos_stop)
  then show ?case by (simp only: d u) simp
next
  case (Suc d)
  then have lt: "j < pages (length items)" by simp
  then have ne: "page_of items (int j + 1) \<noteq> []" by (rule page_of_nonempty)
  let ?r = "user_repos_request session (int j + 1)"
  from Suc.hyps(2) have "d = pages (length items) - Suc j" by simp
  from Suc.hyps(1) [OF this, of "repos @ page_of items (int j + 1)" "log @ [?r]"] lt
  have IH: "user_repos_loop w session (int (Suc j) + 1) (repos @ page_of items (int j + 1)) (log @ [?r])
      = Some (Inr ((repos @ page_of items (int j + 1)) @ drop (100 * Suc j) items),
              (log @ [?r]) @ map (user_repos_request session)
                      [int (Suc j) + 1..int (pages (length items)) + 1])"
    by simp
  have p: "int j + 1 + 1 = int (Suc j) + 1" by simp
  from lt have u: "[int j + 1..int (pages (length items)) + 1]
      = (int j + 1) # [int (Suc j) + 1..int (pages (length items)) + 1]"
    by (intro upto_first) simp
  from honest have "w (length log) ?r = ok (JArr (page_of items (int j + 1)))"
    by (simp add: serves_def)
  then have "user_repos_loop w session (int j + 1) repos log
      = user_repos_loop w session (int j + 1 + 1) (repos @ page_of items (int j + 1)) (log @ [?r])"
    using ne by (rule user_repos_step)
  then have "user_repos_loop w session (int j + 1) repos log
      = user_repos_loop w session (int (Suc j) + 1) (repos @ page_of items (int j + 1)) (log @ [?r])"
    by (simp only: p)
  also note IH
  finally show ?case
    by (simp only: u append_assoc page_of_append list.map append.simps)
qed

lemma org_repos_stop:
  "w (length log) (org_repos_request fmt session org_name p) = ok (JArr [])
   \<Longrightarrow> org_repos_loop fmt w session org_name p acc log
     = Some (Inr acc, log @ [org_repos_request fmt session org_name p])"
  by (subst org_repos_loop.simps)
     (simp add: org_repos_request_def session_get_def ok_def raise_for_status_def json_of_def)

lemma org_repos_step:
  "w (length log) (org_repos_request fmt session org_name p) = ok (JArr xs)
   \<Longrightarrow> xs \<noteq> [] \<Longrightarrow> org_repos_loop fmt w session org_name p acc log
     = (case push_repos xs of
          Inl e \<Rightarrow> Some (Inl e, log @ [org_repos_request fmt session org_name p])
        | Inr kept \<Rightarrow> org_repos_loop fmt w session org_name (p + 1) (acc @ kept)
            (log @ [org_repos_request fmt session org_name p]))"
  by (subst org_repos_loop.simps)
     (simp add: org_repos_request_def session_get_def ok_def raise_for_status_def json_of_def
        bind_err_def split: sum.splits)

lemma take_page: "take (100 * Suc k) items = take (100 * k) items @ page_of items (int k + 1)"
proof -
  have "take (100 * k + 100) items = take (100 * k) items @ take 100 (drop (100 * k) items)"
    by (rule take_add)
  then show ?thesis by (simp add: page_of_def add.commute)
qed

lemma take_pages: "take (100 * pages (length items)) items = items"
  using pages_ge [of "length items"] by simp

lemma upto_last: "[1..int (Suc k)] = [1..int k] @ [int k + 1]"
  by (subst upto_rec2) (simp_all add: add.commute)

lemma push_repos_append:
  "push_repos (xs @ ys) =
     (case push_repos xs of
        Inl e \<Rightarrow> Inl e
      | Inr kept \<Rightarrow> (case push_repos ys of Inl e \<Rightarrow> Inl e | Inr kept' \<Rightarrow> Inr (kept @ kept')))"
  by (induction xs) (auto split: sum.splits)

lemma org_repos_advance:
  assumes served: "\<forall>n p. 1 \<le> p \<and> p \<le> int k \<longrightarrow>
      w n (org_repos_request fmt session org_name p) = ok (JArr (page_of items p))"
    and full: "k \<le> pages (length items)"
    and kept: "push_repos (take (100 * k) items) = Inr kept"
  shows "org_repos_loop fmt w session org_name 1 acc log
    = org_repos_loop fmt w session org_name (int k + 1) (acc @ kept)
        (log @ map (org_repos_request fmt session org_name) [1..int k])"
  using assms
proof (induction k arbitrary: kept)
  case 0
  then show ?case by simp
next
  case (Suc k)
  let ?req = "org_repos_request fmt session org_name"
  let ?log = "log @ map ?req [1..int k]"
  from Suc.prems(3) obtain kept1 kept2 where
    k1: "push_repos (take (100 * k) items) = Inr kept1"
    and k2: "push_repos (page_of items (int k + 1)) = Inr kept2"
    and k: "kept = kept1 @ kept2"
    unfolding take_page by (auto simp: push_repos_append split: sum.splits)
  from Suc.prems(1) have "\<forall>n p. 1 \<le> p \<and> p \<le> int k \<longrightarrow> w n (?req p) = ok (JArr (page_of items p))"
    by simp
  with Suc.prems(2) k1
  have IH: "org_repos_loop fmt w session org_name 1 acc log
      = org_repos_loop fmt w session org_name (int k + 1) (acc @ kept1) ?log"
    by (intro Suc.IH) simp_all
  from Suc.prems(2) have "k < pages (length items)" by simp
  then have ne: "page_of items (int k + 1) \<noteq> []" by (rule page_of_nonempty)
  from Suc.prems(1) have "w (length ?log) (?req (int k + 1)) = ok (JArr (page_of items (int k + 1)))"
    by simp
  then have "org_repos_loop fmt w session org_name (int k + 1) (acc @ kept1) ?log
      = (case push_repos (page_of items (int k + 1)) of
           Inl e \<Rightarrow> Some (Inl e, ?log @ [?req (int k + 1)])
         | Inr kept \<Rightarrow> org_repos_loop fmt w session org_name (int k + 1 + 1) ((acc @ kept1) @ kept)
             (?log @ [?req (int k + 1)]))"
    using ne by (rule org_repos_step)
  with IH k2 have "org_repos_loop fmt w session org_name 1 acc log
      = org_repos_loop fmt w session org_name (int k + 1 + 1) ((acc @ kept1) @ kept2)
          (?log @ [?req (int k + 1)])"
    by simp
  moreover have "int k + 1 + 1 = int (Suc k) + 1" by simp
  ultimately show ?case
    by (simp only: k upto_last append_assoc map_append list.map)
qed

lemma org_repos_exact:
  assumes honest: "serves w (org_repos_request fmt session org_name) items"
    and kept: "push_repos items = Inr kept"
  shows "org_repos_loop fmt w session org_name 1 acc log
    = Some (Inr (acc @ kept),
            log @ map (org_repos_request fmt session org_name) [1..int (pages (length items)) + 1])"
proof -
  let ?req = "org_repos_request fmt session org_name"
  let ?k = "pages (length items)"
  let ?log = "log @ map ?req [1..int ?k]"
  from honest have "\<forall>n p. 1 \<le> p \<and> p \<le> int ?k \<longrightarrow> w n (?req p) = ok (JArr (page_of items p))"
    by (simp add: serves_def)
  moreover from kept have "push_repos (take (100 * ?k) items) = Inr kept"
    by (simp only: take_pages)
  ultimately have "org_repos_loop fmt w session org_name 1 acc log
      = org_repos_loop fmt w session org_name (int ?k + 1) (acc @ kept) ?log"
    by (intro org_repos_advance) simp_all
  moreover from honest have "w (length ?log) (?req (int ?k + 1)) = ok (JArr [])"
    by (simp add: serves_def page_of_last)
  then have "org_repos_loop fmt w session org_name (int ?k + 1) (acc @ kept) ?log
      = Some (Inr (acc @ kept), ?log @ [?req (int ?k + 1)])"
    by (rule org_repos_stop)
  moreover have "[1..int ?k + 1] = [1..int ?k] @ [int ?k + 1]"
    using upto_last [of ?k] by (simp add: add.commute)
  ultimately show ?thesis by simp
qed

lemma org_repos_breaks:
  assumes broken: "breaks w (org_repos_request fmt session org_name) items k response"
    and kept: "push_repos (take (100 * k) items) = Inr kept"
  shows "org_repos_loop fmt w session org_name 1 acc log
    = Some (Inl (HTTPError (status_code response)),
            log @ map (org_repos_request fmt session org_name) [1..int k + 1])"
proof -
  let ?req = "org_repos_request fmt session org_name"
  let ?log = "log @ map ?req [1..int k]"
  from broken kept have "org_repos_loop fmt w session org_name 1 acc log
      = org_repos_loop fmt w session org_name (int k + 1) (acc @ kept) ?log"
    by (intro org_repos_advance) (simp_all add: breaks_def)
  moreover from broken have "w (length ?log) (?req (int k + 1)) = Some response"
    and "400 \<le> status_code response" and "status_code response < 600"
    by (simp_all add: breaks_def)
  then have "org_repos_loop fmt w session org_name (int k + 1) (acc @ kept) ?log
      = Some (Inl (HTTPError (status_code response)), ?log @ [?req (int k + 1)])"
    by (subst org_repos_loop.simps)
       (simp add: org_repos_request_def session_get_def raise_for_status_def)
  moreover have "[1..int k + 1] = [1..int k] @ [int k + 1]"
    using upto_last [of k] by (simp add: add.commute)
  ultimately show ?thesis by simp
qed

lemma org_entry_login: "org_entry org \<Longrightarrow> py_index org ''login'' = Inr (org_login org)"
  by (simp add: org_entry_def org_login_def split: sum.splits)

lemma orgs_loop_exact:
  assumes "\<forall>org\<in>set orgs. org_entry org
      \<and> serves w (org_repos_request fmt session (org_login org)) (listing (org_login org))
      \<and> push_repos (listing (org_login org)) = Inr (kept (org_login org))"
  shows "orgs_loop fmt w session orgs acc log
    = Some (Inr (acc @ concat (map (\<lambda>org. kept (org_login org)) orgs)),
            log @ concat (map (org_pages fmt session listing) orgs))"
  using assms
proof (induction orgs arbitrary: acc log)
  case Nil
  then show ?case by simp
next
  case (Cons org orgs)
  from Cons.prems have login: "py_index org ''login'' = Inr (org_login org)"
    by (simp add: org_entry_login)
  from Cons.prems have "org_repos_loop fmt w session (org_login org) 1 acc log
      = Some (Inr (acc @ kept (org_login org)), log @ org_pages fmt session listing org)"
    unfolding org_pages_def by (intro org_repos_exact) simp_all
  moreover from Cons.prems
  have "orgs_loop fmt w session orgs (acc @ kept (org_login org))
        (log @ org_pages fmt session listing org)
      = Some (Inr ((acc @ kept (org_login org)) @ concat (map (\<lambda>org. kept (org_login org)) orgs)),
              (log @ org_pages fmt session listing org)
                @ concat (map (org_pages fmt session listing) orgs))"
    by (intro Cons.IH) simp
  ultimately show ?case using login by simp
qed

lemma orgs_loop_breaks:
  assumes "\<forall>org\<in>set before. org_entry org
      \<and> serves w (org_repos_request fmt session (org_login org)) (listing (org_login org))
      \<and> push_repos (listing (org_login org)) = Inr (kept (org_login org))"
    and "org_entry org"
    and "breaks w (org_repos_request fmt session (org_login org)) items k response"
    and "push_repos (take (100 * k) items) = Inr some"
  shows "orgs_loop fmt w session (before @ org # after) acc log
    = Some (Inl (HTTPError (status_code response)),
            log @ concat (map (org_pages fmt session listing) before)
              @ map (org_repos_request fmt session (org_login org)) [1..int k + 1])"
  using assms
proof (induction before arbitrary: acc log)
  case Nil
  from Nil.prems(2) have login: "py_index org ''login'' = Inr (org_login org)"
    by (rule org_entry_login)
  from Nil.prems(3,4) have "org_repos_loop fmt w session (org_login org) 1 acc log
      = Some (Inl (HTTPError (status_code response)),
              log @ map (org_repos_request fmt session (org_login org)) [1..int k + 1])"
    by (rule org_repos_breaks)
  with login show ?case by simp
next
  case (Cons first before)
  from Cons.prems(1) have login: "py_index first ''login'' = Inr (org_login first)"
    by (simp add: org_entry_login)
  from Cons.prems(1) have "org_repos_loop fmt w session (org_login first) 1 acc log
      = Some (Inr (acc @ kept (org_login first)), log @ org_pages fmt session listing first)"
    unfolding org_pages_def by (intro org_repos_exact) simp_all
  moreover from Cons.prems
  have "orgs_loop fmt w session (before @ org # after) (acc @ kept (org_login first))
        (log @ org_pages fmt session listing first)
      = Some (Inl (HTTPError (status_code response)),
              (log @ org_pages fmt session listing first)
                @ concat (map (org_pages fmt session listing) before)
                @ map (org_repos_request fmt session (org_login org)) [1..int k + 1])"
    by (intro Cons.IH) simp_all
  ultimately show ?case using login by simp
qed

lemma get_org_repos_orgs:
  "w (length log) (orgs_request session) = ok (JArr orgs) \<Longrightarrow>
   get_org_repos fmt w session log = orgs_loop fmt w session orgs [] (log @ [orgs_request session])"
  by (simp add: get_org_repos_def orgs_request_def session_get_def ok_def raise_for_status_def
        json_of_def bind_err_def)

lemma get_user_repos_exact:
  assumes "serves w (user_repos_request session) owned"
  shows "get_user_repos w session log
    = Some (Inr owned,
            log @ map (user_repos_request session) [1..int (pages (length owned)) + 1])"
  using user_repos_pages [OF assms, of 0 "[]" log] by (simp add: get_user_repos_def)

lemma authenticated_user:
  "w 0 (user_request session) = ok user \<Longrightarrow>
   get_authenticated_user w session [] = (Inr user, [user_request session])"
  by (simp add: get_authenticated_user_def user_request_def session_get_def ok_def
        raise_for_status_def json_of_def)

subsection \<open>The scans of a repository\<close>

lemma py_set_add_Inr: "py_set_add v emails = Inr emails' \<Longrightarrow> emails' = insert v emails"
  by (cases v) auto

lemma add_email_mono: "add_email person emails = Inr emails' \<Longrightarrow> emails \<subseteq> emails'"
  by (cases person)
     (auto simp: add_email_def bind_err_def split: if_splits sum.splits option.splits
           dest!: py_set_add_Inr)

lemma add_email_has:
  "map_of p ''email'' = Some e \<Longrightarrow> add_email (JObj p) emails = Inr emails' \<Longrightarrow> e \<in> emails'"
  by (auto simp: add_email_def bind_err_def split: if_splits dest!: py_set_add_Inr)

lemma add_email_no_key:
  "map_of p ''email'' = None \<Longrightarrow> add_email (JObj p) emails = Inr emails"
  by (auto simp: add_email_def bind_err_def)

lemma add_email_str:
  "map_of p ''email'' = Some (JStr a) \<Longrightarrow> add_email (JObj p) emails = Inr (insert (JStr a) emails)"
  by (auto simp: add_email_def bind_err_def)

lemma commit_emails_nested:
  "nested_commit commit = Some c \<Longrightarrow>
   commit_emails commit emails =
     bind_err (add_email (case map_of c ''author'' of None \<Rightarrow> JObj [] | Some v \<Rightarrow> v) emails)
       (add_email (case map_of c ''committer'' of None \<Rightarrow> JObj [] | Some v \<Rightarrow> v))"
  apply (cases commit)
  apply (auto simp: commit_emails_def bind_err_def split: option.splits json.splits sum.splits)
  done

lemma commit_emails_mono: "commit_emails commit emails = Inr emails' \<Longrightarrow> emails \<subseteq> emails'"
  by (auto simp: commit_emails_def bind_err_def split: sum.splits dest!: add_email_mono)

lemma scan_commits_mono: "scan_commits commits emails = Inr emails' \<Longrightarrow> emails \<subseteq> emails'"
  by (induction commits arbitrary: emails) (auto split: sum.splits dest!: commit_emails_mono)


lemma commit_emails_has:
  assumes "nested_commit commit = Some c"
    and "map_of c ''author'' = Some (JObj p) \<or> map_of c ''committer'' = Some (JObj p)"
    and "map_of p ''email'' = Some e"
    and "commit_emails commit emails = Inr emails'"
  shows "e \<in> emails'"
proof -
  from assms(1,4) obtain emails1 where
    a: "add_email (case map_of c ''author'' of None \<Rightarrow> JObj [] | Some v \<Rightarrow> v) emails = Inr emails1"
    and b: "add_email (case map_of c ''committer'' of None \<Rightarrow> JObj [] | Some v \<Rightarrow> v) emails1 = Inr emails'"
    by (auto simp: commit_emails_nested bind_err_def split: sum.splits)
  from assms(2) show ?thesis
  proof
    assume "map_of c ''author'' = Some (JObj p)"
    with a assms(3) have "e \<in> emails1" by (auto dest: add_email_has)
    with add_email_mono [OF b] show ?thesis by auto
  next
    assume "map_of c ''committer'' = Some (JObj p)"
    with b assms(3) show ?thesis by (auto dest: add_email_has)
  qed
qed

lemma scan_commits_has:
  "scan_commits commits emails = Inr emails' \<Longrightarrow> commit \<in> set commits \<Longrightarrow>
   nested_commit commit = Some c \<Longrightarrow>
   map_of c ''author'' = Some (JObj p) \<or> map_of c ''committer'' = Some (JObj p) \<Longrightarrow>
   map_of p ''email'' = Some e \<Longrightarrow> e \<in> emails'"
proof (induction commits arbitrary: emails)
  case Nil
  then show ?case by simp
next
  case (Cons x xs)
  from Cons.prems(1) obtain emails1 where
    x: "commit_emails x emails = Inr emails1" and xs: "scan_commits xs emails1 = Inr emails'"
    by (auto split: sum.splits)
  show ?case
  proof (cases "commit = x")
    case True
    with x Cons.prems(3-5) have "e \<in> emails1" by (auto dest: commit_emails_has)
    with scan_commits_mono [OF xs] show ?thesis by auto
  next
    case False
    with Cons.prems(2) have "commit \<in> set xs" by simp
    from Cons.IH [OF xs this Cons.prems(3-5)] show ?thesis .
  qed
qed

lemma opened_by_entry:
  "pr_entry pr \<Longrightarrow> opened_by username pr = Inr (pr_login pr = Some (JStr username))"
  by (cases pr) (auto simp: opened_by_def bind_err_def split: option.splits json.splits)

lemma user_prs_filter:
  "\<forall>pr\<in>set prs. pr_entry pr \<Longrightarrow>
   user_prs username prs = Inr (filter (\<lambda>pr. pr_login pr = Some (JStr username)) prs)"
  by (induction prs) (auto simp: opened_by_entry)

lemma commits_stop:
  "w (length log) (commits_request fmt session repo_owner repo_name username p) = ok (JArr [])
   \<Longrightarrow> commits_loop fmt w session repo_owner repo_name username p emails log
     = Some (Inr emails, log @ [commits_request fmt session repo_owner repo_name username p])"
  by (subst commits_loop.simps)
     (simp add: commits_request_def session_get_def ok_def json_of_def)

lemma commits_step:
  "w (length log) (commits_request fmt session repo_owner repo_name username p) = ok (JArr xs)
   \<Longrightarrow> xs \<noteq> [] \<Longrightarrow> commits_loop fmt w session repo_owner repo_name username p emails log
     = (case scan_commits xs emails of
          Inl e \<Rightarrow> Some (Inl e, log @ [commits_request fmt session repo_owner repo_name username p])
        | Inr emails1 \<Rightarrow> commits_loop fmt w session repo_owner repo_name username (p + 1) emails1
            (log @ [commits_request fmt session repo_owner repo_name username p]))"
  by (subst commits_loop.simps)
     (simp add: commits_request_def session_get_def ok_def json_of_def bind_err_def
        split: sum.splits)

lemma pulls_stop:
  "w (length log) (pulls_request fmt session repo_owner repo_name p) = ok (JArr [])
   \<Longrightarrow> pulls_loop fmt w session repo_owner repo_name username p emails log
     = Some (Inr emails, log @ [pulls_request fmt session repo_owner repo_name p])"
  by (subst pulls_loop.simps)
     (simp add: pulls_request_def session_get_def ok_def json_of_def)

lemma pulls_step:
  "w (length log) (pulls_request fmt session repo_owner repo_name p) = ok (JArr xs)
   \<Longrightarrow> xs \<noteq> [] \<Longrightarrow> pulls_loop fmt w session repo_owner repo_name username p emails log
     = (case user_prs username xs of
          Inl e \<Rightarrow> Some (Inl e, log @ [pulls_request fmt session repo_owner repo_name p])
        | Inr mine \<Rightarrow>
            (case prs_loop fmt w session repo_owner repo_name mine emails
                    (log @ [pulls_request fmt session repo_owner repo_name p]) of
               (Inl e, log2) \<Rightarrow> Some (Inl e, log2)
             | (Inr emails1, log2) \<Rightarrow>
                 pulls_loop fmt w session repo_owner repo_name username (p + 1) emails1 log2))"
  by (subst pulls_loop.simps)
     (simp add: pulls_request_def session_get_def ok_def json_of_def bind_err_def
        split: sum.splits prod.splits)

lemma add_email_exact:
  "person_entry v \<Longrightarrow> add_email v emails = Inr (emails \<union> person_email v)"
proof (cases v)
  case (JObj p)
  assume "person_entry v"
  with JObj show ?thesis
    by (cases "map_of p ''email''"; cases p)
       (auto simp: add_email_def bind_err_def split: json.splits elim: hashable.elims)
qed (auto simp: add_email_def)

lemma commit_emails_exact:
  "commit_entry commit \<Longrightarrow> commit_emails commit emails = Inr (emails \<union> commit_addresses commit)"
  by (cases "nested_commit commit")
     (auto simp: commit_entry_def commit_addresses_def commit_emails_nested person_of_def
        add_email_exact bind_err_def)

lemma scan_commits_exact:
  "\<forall>commit\<in>set commits. commit_entry commit \<Longrightarrow>
   scan_commits commits emails = Inr (emails \<union> addresses commits)"
  by (induction commits arbitrary: emails)
     (auto simp: addresses_def commit_emails_exact)

lemma scan_commits_append:
  "scan_commits (xs @ ys) emails =
     (case scan_commits xs emails of Inl e \<Rightarrow> Inl e | Inr emails1 \<Rightarrow> scan_commits ys emails1)"
  by (induction xs arbitrary: emails) (auto split: sum.splits)

lemma commits_advance:
  assumes served: "\<forall>n p. 1 \<le> p \<and> p \<le> int k \<longrightarrow>
      w n (commits_request fmt session repo_owner repo_name username p)
        = ok (JArr (page_of commits p))"
    and full: "k \<le> pages (length commits)"
    and scan: "scan_commits (take (100 * k) commits) emails = Inr emails1"
  shows "commits_loop fmt w session repo_owner repo_name username 1 emails log
    = commits_loop fmt w session repo_owner repo_name username (int k + 1) emails1
        (log @ map (commits_request fmt session repo_owner repo_name username) [1..int k])"
  using assms
proof (induction k arbitrary: emails1)
  case 0
  then show ?case by simp
next
  case (Suc k)
  let ?req = "commits_request fmt session repo_owner repo_name username"
  let ?log = "log @ map ?req [1..int k]"
  from Suc.prems(3) obtain emails2 where
    s1: "scan_commits (take (100 * k) commits) emails = Inr emails2"
    and s2: "scan_commits (page_of commits (int k + 1)) emails2 = Inr emails1"
    unfolding take_page by (auto simp: scan_commits_append split: sum.splits)
  from Suc.prems(1) have "\<forall>n p. 1 \<le> p \<and> p \<le> int k \<longrightarrow> w n (?req p) = ok (JArr (page_of commits p))"
    by simp
  with Suc.prems(2) s1
  have IH: "commits_loop fmt w session repo_owner repo_name username 1 emails log
      = commits_loop fmt w session repo_owner repo_name username (int k + 1) emails2 ?log"
    by (intro Suc.IH) simp_all
  from Suc.prems(2) have "k < pages (length commits)" by simp
  then have ne: "page_of commits (int k + 1) \<noteq> []" by (rule page_of_nonempty)
  from Suc.prems(1) have "w (length ?log) (?req (int k + 1)) = ok (JArr (page_of commits (int k + 1)))"
    by simp
  then have "commits_loop fmt w session repo_owner repo_name username (int k + 1) emails2 ?log
      = (case scan_commits (page_of commits (int k + 1)) emails2 of
           Inl e \<Rightarrow> Some (Inl e, ?log @ [?req (int k + 1)])
         | Inr emails1 \<Rightarrow> commits_loop fmt w session repo_owner repo_name username (int k + 1 + 1)
             emails1 (?log @ [?req (int k + 1)]))"
    using ne by (rule commits_step)
  with IH s2 have "commits_loop fmt w session repo_owner repo_name username 1 emails log
      = commits_loop fmt w session repo_owner repo_name username (int k + 1 + 1) emails1
          (?log @ [?req (int k + 1)])"
    by simp
  moreover have "int k + 1 + 1 = int (Suc k) + 1" by simp
  ultimately show ?case
    by (simp only: upto_last append_assoc map_append list.map)
qed

lemma commits_exact:
  assumes honest: "serves w (commits_request fmt session repo_owner repo_name username) commits"
    and scan: "scan_commits commits emails = Inr emails1"
  shows "commits_loop fmt w session repo_owner repo_name username 1 emails log
    = Some (Inr emails1,
            log @ map (commits_request fmt session repo_owner repo_name username)
                    [1..int (pages (length commits)) + 1])"
proof -
  let ?req = "commits_request fmt session repo_owner repo_name username"
  let ?k = "pages (length commits)"
  let ?log = "log @ map ?req [1..int ?k]"
  from honest have "\<forall>n p. 1 \<le> p \<and> p \<le> int ?k \<longrightarrow> w n (?req p) = ok (JArr (page_of commits p))"
    by (simp add: serves_def)
  moreover from scan have "scan_commits (take (100 * ?k) commits) emails = Inr emails1"
    by (simp only: take_pages)
  ultimately have "commits_loop fmt w session repo_owner repo_name username 1 emails log
      = commits_loop fmt w session repo_owner repo_name username (int ?k + 1) emails1 ?log"
    by (intro commits_advance) simp_all
  moreover from honest have "w (length ?log) (?req (int ?k + 1)) = ok (JArr [])"
    by (simp add: serves_def page_of_last)
  then have "commits_loop fmt w session repo_owner repo_name username (int ?k + 1) emails1 ?log
      = Some (Inr emails1, ?log @ [?req (int ?k + 1)])"
    by (rule commits_stop)
  moreover have "[1..int ?k + 1] = [1..int ?k] @ [int ?k + 1]"
    using upto_last [of ?k] by (simp add: add.commute)
  ultimately show ?thesis by simp
qed

lemma fetch_entry_number:
  "fetch_entry fetch pr \<Longrightarrow> py_index pr ''number'' = Inr (number_of pr)"
  by (simp add: fetch_entry_def number_of_def split: sum.splits)

lemma prs_loop_exact:
  assumes net: "fetches w fmt session repo_owner repo_name fetch"
  shows "\<forall>pr\<in>set mine. fetch_entry fetch pr \<Longrightarrow>
    scan_commits (concat (map (fetched fetch) mine)) emails = Inr emails1 \<Longrightarrow>
    prs_loop fmt w session repo_owner repo_name mine emails log
      = (Inr emails1, log @ map (pr_commits_request fmt session repo_owner repo_name) mine)"
proof (induction mine arbitrary: emails log)
  case Nil
  then show ?case by simp
next
  case (Cons pr mine)
  let ?r = "pr_commits_request fmt session repo_owner repo_name pr"
  from Cons.prems(1) have entry: "fetch_entry fetch pr" by simp
  then have number: "py_index pr ''number'' = Inr (number_of pr)" by (rule fetch_entry_number)
  then have r: "?r = GET (pr_commits_url fmt repo_owner repo_name (number_of pr)) [] session"
    by (simp add: pr_commits_request_def)
  from net have w: "w (length log) (GET (pr_commits_url fmt repo_owner repo_name (number_of pr)) [] session)
      = fetch (number_of pr)"
    by (simp add: fetches_def)
  from Cons.prems(2) obtain emails2 where
    s1: "scan_commits (fetched fetch pr) emails = Inr emails2"
    and s2: "scan_commits (concat (map (fetched fetch) mine)) emails2 = Inr emails1"
    by (auto simp: scan_commits_append split: sum.splits)
  from Cons.prems(1) s2
  have IH: "prs_loop fmt w session repo_owner repo_name mine emails2 (log @ [?r])
      = (Inr emails1, (log @ [?r]) @ map (pr_commits_request fmt session repo_owner repo_name) mine)"
    by (intro Cons.IH) simp_all
  from entry obtain response where f: "fetch (number_of pr) = Some response"
    by (auto simp: fetch_entry_def split: option.splits)
  show ?case
  proof (cases "status_code response = 200")
    case True
    with entry f obtain cs where b: "body response = Some (JArr cs)"
      by (auto simp: fetch_entry_def split: option.splits json.splits)
    with f True have "fetched fetch pr = cs" by (simp add: fetched_def)
    with s1 have "scan_commits cs emails = Inr emails2" by simp
    with number w f True b IH show ?thesis
      by (simp add: session_get_def json_of_def bind_err_def r)
  next
    case False
    with f have "fetched fetch pr = []" by (simp add: fetched_def)
    with s1 have "emails2 = emails" by simp
    with number w f False IH show ?thesis
      by (simp add: session_get_def r)
  qed
qed

lemma user_prs_opened:
  "\<forall>pr\<in>set prs. pr_entry pr \<Longrightarrow> user_prs username prs = Inr (filter (opened username) prs)"
proof -
  have "opened username = (\<lambda>pr. pr_login pr = Some (JStr username))"
    by (rule ext) (simp add: opened_def)
  then show "\<forall>pr\<in>set prs. pr_entry pr \<Longrightarrow> user_prs username prs = Inr (filter (opened username) prs)"
    by (simp only: user_prs_filter)
qed

lemma pulls_page_step:
  assumes reply: "w (length log) (pulls_request fmt session repo_owner repo_name p) = ok (JArr page)"
    and ne: "page \<noteq> []"
    and net: "fetches w fmt session repo_owner repo_name fetch"
    and shape: "\<forall>pr\<in>set page. pr_entry pr \<and> (opened username pr \<longrightarrow> fetch_entry fetch pr)"
    and scan: "scan_commits (concat (map (fetched fetch) (filter (opened username) page))) emails
        = Inr emails1"
  shows "pulls_loop fmt w session repo_owner repo_name username p emails log
    = pulls_loop fmt w session repo_owner repo_name username (p + 1) emails1
        (log @ pulls_request fmt session repo_owner repo_name p
           # map (pr_commits_request fmt session repo_owner repo_name)
               (filter (opened username) page))"
proof -
  let ?r = "pulls_request fmt session repo_owner repo_name p"
  let ?mine = "filter (opened username) page"
  from shape have "user_prs username page = Inr ?mine"
    by (intro user_prs_opened) simp
  moreover from shape have "\<forall>pr\<in>set ?mine. fetch_entry fetch pr" by simp
  with net have "prs_loop fmt w session repo_owner repo_name ?mine emails (log @ [?r])
      = (Inr emails1, (log @ [?r]) @ map (pr_commits_request fmt session repo_owner repo_name) ?mine)"
    using scan by (rule prs_loop_exact)
  moreover from reply ne
  have "pulls_loop fmt w session repo_owner repo_name username p emails log
     = (case user_prs username page of
          Inl e \<Rightarrow> Some (Inl e, log @ [?r])
        | Inr mine \<Rightarrow>
            (case prs_loop fmt w session repo_owner repo_name mine emails (log @ [?r]) of
               (Inl e, log2) \<Rightarrow> Some (Inl e, log2)
             | (Inr emails1, log2) \<Rightarrow>
                 pulls_loop fmt w session repo_owner repo_name username (p + 1) emails1 log2))"
    by (rule pulls_step)
  ultimately show ?thesis by simp
qed

lemma pulls_advance:
  assumes served: "\<forall>n p. 1 \<le> p \<and> p \<le> int k \<longrightarrow>
      w n (pulls_request fmt session repo_owner repo_name p) = ok (JArr (page_of prs p))"
    and net: "fetches w fmt session repo_owner repo_name fetch"
    and full: "k \<le> pages (length prs)"
    and shape: "\<forall>pr\<in>set (take (100 * k) prs).
      pr_entry pr \<and> (opened username pr \<longrightarrow> fetch_entry fetch pr)"
    and scan: "scan_commits
        (concat (map (fetched fetch) (filter (opened username) (take (100 * k) prs)))) emails
        = Inr emails1"
  shows "pulls_loop fmt w session repo_owner repo_name username 1 emails log
    = pulls_loop fmt w session repo_owner repo_name username (int k + 1) emails1
        (log @ concat (map (pulls_page_trace fmt session repo_owner repo_name username prs)
                         [1..int k]))"
  using served full shape scan
proof (induction k arbitrary: emails1)
  case 0
  then show ?case by simp
next
  case (Suc k)
  let ?trace = "pulls_page_trace fmt session repo_owner repo_name username prs"
  let ?log = "log @ concat (map ?trace [1..int k])"
  let ?page = "page_of prs (int k + 1)"
  from Suc.prems(4) obtain emails2 where
    s1: "scan_commits (concat (map (fetched fetch) (filter (opened username) (take (100 * k) prs))))
           emails = Inr emails2"
    and s2: "scan_commits (concat (map (fetched fetch) (filter (opened username) ?page))) emails2
           = Inr emails1"
    unfolding take_page by (auto simp: scan_commits_append split: sum.splits)
  from Suc.prems(3) have sh1: "\<forall>pr\<in>set (take (100 * k) prs).
      pr_entry pr \<and> (opened username pr \<longrightarrow> fetch_entry fetch pr)"
    and sh2: "\<forall>pr\<in>set ?page. pr_entry pr \<and> (opened username pr \<longrightarrow> fetch_entry fetch pr)"
    unfolding take_page by simp_all
  from Suc.prems(1) have "\<forall>n p. 1 \<le> p \<and> p \<le> int k \<longrightarrow>
      w n (pulls_request fmt session repo_owner repo_name p) = ok (JArr (page_of prs p))"
    by simp
  with Suc.prems(2) sh1 s1
  have IH: "pulls_loop fmt w session repo_owner repo_name username 1 emails log
      = pulls_loop fmt w session repo_owner repo_name username (int k + 1) emails2 ?log"
    by (intro Suc.IH) simp_all
  from Suc.prems(2) have "k < pages (length prs)" by simp
  then have ne: "?page \<noteq> []" by (rule page_of_nonempty)
  from Suc.prems(1)
  have "w (length ?log) (pulls_request fmt session repo_owner repo_name (int k + 1)) = ok (JArr ?page)"
    by simp
  from pulls_page_step [OF this ne net sh2 s2]
  have "pulls_loop fmt w session repo_owner repo_name username (int k + 1) emails2 ?log
      = pulls_loop fmt w session repo_owner repo_name username (int k + 1 + 1) emails1
          (?log @ ?trace (int k + 1))"
    by (simp only: pulls_page_trace_def)
  with IH have "pulls_loop fmt w session repo_owner repo_name username 1 emails log
      = pulls_loop fmt w session repo_owner repo_name username (int k + 1 + 1) emails1
          (?log @ ?trace (int k + 1))"
    by simp
  moreover have "int k + 1 + 1 = int (Suc k) + 1" by simp
  ultimately show ?case
    by (simp only: upto_last append_assoc map_append list.map concat_append concat.simps
          append_Nil2)
qed

lemma pulls_exact:
  assumes honest: "serves w (pulls_request fmt session repo_owner repo_name) prs"
    and net: "fetches w fmt session repo_owner repo_name fetch"
    and shape: "\<forall>pr\<in>set prs. pr_entry pr \<and> (opened username pr \<longrightarrow> fetch_entry fetch pr)"
    and scan: "scan_commits (concat (map (fetched fetch) (filter (opened username) prs))) emails
        = Inr emails1"
  shows "pulls_loop fmt w session repo_owner repo_name username 1 emails log
    = Some (Inr emails1, log @ pulls_trace fmt session repo_owner repo_name username prs)"
proof -
  let ?req = "pulls_request fmt session repo_owner repo_name"
  let ?k = "pages (length prs)"
  let ?log = "log @ concat (map (pulls_page_trace fmt session repo_owner repo_name username prs)
      [1..int ?k])"
  from honest have "\<forall>n p. 1 \<le> p \<and> p \<le> int ?k \<longrightarrow> w n (?req p) = ok (JArr (page_of prs p))"
    by (simp add: serves_def)
  moreover from shape have "\<forall>pr\<in>set (take (100 * ?k) prs).
      pr_entry pr \<and> (opened username pr \<longrightarrow> fetch_entry fetch pr)"
    by (simp only: take_pages)
  moreover from scan have "scan_commits
      (concat (map (fetched fetch) (filter (opened username) (take (100 * ?k) prs)))) emails
      = Inr emails1"
    by (simp only: take_pages)
  ultimately have "pulls_loop fmt w session repo_owner repo_name username 1 emails log
      = pulls_loop fmt w session repo_owner repo_name username (int ?k + 1) emails1 ?log"
    using net by (intro pulls_advance) simp_all
  moreover from honest have "w (length ?log) (?req (int ?k + 1)) = ok (JArr [])"
    by (simp add: serves_def page_of_last)
  then have "pulls_loop fmt w session repo_owner repo_name username (int ?k + 1) emails1 ?log
      = Some (Inr emails1, ?log @ [?req (int ?k + 1)])"
    by (rule pulls_stop)
  ultimately show ?thesis by (simp add: pulls_trace_def)
qed

lemma contribution_exact:
  assumes hc: "serves w (commits_request fmt session repo_owner repo_name username) commits"
    and hp: "serves w (pulls_request fmt session repo_owner repo_name) prs"
    and net: "fetches w fmt session repo_owner repo_name fetch"
    and shape: "\<forall>pr\<in>set prs. pr_entry pr \<and> (opened username pr \<longrightarrow> fetch_entry fetch pr)"
    and scan: "scan_commits
        (commits @ concat (map (fetched fetch) (filter (opened username) prs))) {} = Inr emails"
  shows "get_contribution_emails fmt w session repo_owner repo_name username log
    = Some (Inr emails,
            log @ map (commits_request fmt session repo_owner repo_name username)
                    [1..int (pages (length commits)) + 1]
              @ pulls_trace fmt session repo_owner repo_name username prs)"
proof -
  from scan obtain emails1 where
    s1: "scan_commits commits {} = Inr emails1"
    and s2: "scan_commits (concat (map (fetched fetch) (filter (opened username) prs))) emails1
        = Inr emails"
    by (auto simp: scan_commits_append split: sum.splits)
  from commits_exact [OF hc s1, of log] pulls_exact [OF hp net shape s2]
  show ?thesis by (simp add: get_contribution_emails_def)
qed

subsection \<open>The aggregation loop and its scans (C1, C10)\<close>

lemma analyze_scans:
  "analyze fmt w session username repos all_emails repo_emails log
     = Some (Inr (all_emails', repo_emails'), log') \<Longrightarrow>
   \<exists>ps. scans fmt w session username repos log = Some ps
      \<and> all_emails' = all_emails \<union> \<Union> (snd ` set ps)
      \<and> repo_emails' = foldl record_scan repo_emails ps"
proof (induction repos arbitrary: all_emails repo_emails log)
  case Nil
  then show ?case by simp
next
  case (Cons repo repos)
  from Cons.prems obtain repo_owner repo_name emails log1 where
    o: "bind_err (py_index repo ''owner'') (\<lambda>owner. py_index owner ''login'') = Inr repo_owner"
    and n: "py_index repo ''name'' = Inr repo_name"
    and g: "get_contribution_emails fmt w session repo_owner repo_name username log
              = Some (Inr emails, log1)"
    and a: "analyze fmt w session username repos (all_emails \<union> emails)
              (record_scan repo_emails (repo_key fmt repo_owner repo_name, emails)) log1
              = Some (Inr (all_emails', repo_emails'), log')"
    by (auto simp: record_scan_def split: sum.splits option.splits prod.splits if_splits)
  from Cons.IH [OF a] obtain ps where
    "scans fmt w session username repos log1 = Some ps"
    "all_emails' = all_emails \<union> emails \<union> \<Union> (snd ` set ps)"
    "repo_emails' = foldl record_scan
        (record_scan repo_emails (repo_key fmt repo_owner repo_name, emails)) ps"
    by blast
  with o n g show ?case by auto
qed

lemma record_scan_pair:
  "record_scan m (k, S) = (if S \<noteq> {} then m(k \<mapsto> S) else m)"
  by (simp add: record_scan_def)

lemma foldl_record_other:
  "k \<notin> fst ` set ps \<Longrightarrow> foldl record_scan m ps k = m k"
  by (induction ps arbitrary: m) (auto simp: record_scan_def)

lemma foldl_record_entry:
  "foldl record_scan m ps k = Some S \<Longrightarrow> m k = Some S \<or> ((k, S) \<in> set ps \<and> S \<noteq> {})"
proof (induction ps arbitrary: m)
  case Nil
  then show ?case by simp
next
  case (Cons p ps)
  from Cons.IH [of "record_scan m p"] Cons.prems show ?case
    by (cases p) (auto simp: record_scan_def split: if_splits)
qed

lemma foldl_record_distinct:
  "distinct (map fst ps) \<Longrightarrow> (k, S) \<in> set ps \<Longrightarrow> S \<noteq> {} \<Longrightarrow>
   foldl record_scan m ps k = Some S"
proof (induction ps arbitrary: m)
  case Nil
  then show ?case by simp
next
  case (Cons p ps)
  show ?case
  proof (cases "p = (k, S)")
    case True
    with Cons.prems have "k \<notin> fst ` set ps" by auto
    then have "foldl record_scan (record_scan m p) ps k = record_scan m p k"
      by (rule foldl_record_other)
    with True Cons.prems(3) show ?thesis
      by (simp add: record_scan_pair)
  next
    case False
    with Cons.prems show ?thesis by (auto intro: Cons.IH)
  qed
qed

lemma foldl_record_last:
  "S2 \<noteq> {} \<Longrightarrow> k \<notin> fst ` set zs \<Longrightarrow>
   foldl record_scan m (xs @ (k, S2) # zs) k = Some S2"
proof -
  assume s: "S2 \<noteq> {}" and k: "k \<notin> fst ` set zs"
  have "foldl record_scan m (xs @ (k, S2) # zs) k
      = record_scan (foldl record_scan m xs) (k, S2) k"
    using foldl_record_other [OF k] by simp
  with s show ?thesis by (simp add: record_scan_pair)
qed


text \<open>The runs in \<open>twice_world\<close> and \<open>alice_world\<close>, evaluated.\<close>

lemmas run_defs = main_def collect_def get_authenticated_user_def get_user_repos_def
        get_org_repos_def get_contribution_emails_def user_repos_loop.simps commits_loop.simps
        pulls_loop.simps session_get_def GITHUB_API_URL_def ok_def
        raise_for_status_def json_of_def bind_err_def as_str_def proj_repo_def
        user_repos_params_def commits_params_def pulls_params_def commits_url_def pulls_url_def
        repo_key_def alice_commit_def mail_commit_def commit_emails_def add_email_def

lemma twice_run:
  "main py_str twice_world (Some ''ghp_1'') =
     Some (Report {JStr ''alice@x.com'', JStr ''alice@work.com''}
             [''alice/proj'' \<mapsto> {JStr ''alice@work.com''}],
           twice_listing @ proj_scan @ proj_scan)"
  by (simp add: run_defs twice_world_def twice_listing_def proj_scan_def insert_commute)

lemma twice_analyze:
  "analyze py_str twice_world (create_github_session ''ghp_1'') ''alice'' [proj_repo, proj_repo]
       {} Map.empty twice_listing =
     Some (Inr ({JStr ''alice@x.com'', JStr ''alice@work.com''},
                [''alice/proj'' \<mapsto> {JStr ''alice@work.com''}]),
           twice_listing @ proj_scan @ proj_scan)"
  by (simp add: run_defs twice_world_def twice_listing_def proj_scan_def insert_commute)

lemma twice_scans:
  "scans py_str twice_world (create_github_session ''ghp_1'') ''alice'' [proj_repo, proj_repo]
       twice_listing =
     Some [(''alice/proj'', {JStr ''alice@x.com''}), (''alice/proj'', {JStr ''alice@work.com''})]"
  by (simp add: run_defs twice_world_def twice_listing_def proj_scan_def)

lemma alice_analyze:
  "analyze py_str alice_world (create_github_session ''ghp_1'') ''alice'' [proj_repo]
       {} Map.empty alice_listing =
     Some (Inr ({JStr ''alice@x.com''}, [''alice/proj'' \<mapsto> {JStr ''alice@x.com''}]),
           alice_listing @ proj_scan)"
  by (simp add: run_defs alice_world_def alice_listing_def proj_scan_def)

lemma alice_scans:
  "scans py_str alice_world (create_github_session ''ghp_1'') ''alice'' [proj_repo] alice_listing =
     Some [(''alice/proj'', {JStr ''alice@x.com''})]"
  by (simp add: run_defs alice_world_def alice_listing_def proj_scan_def)


text \<open>
  Claim C1, amended. After the loop, started as \<open>main\<close> starts it: the global set is
  the union of the results of all scans; every entry of the per-repository mapping
  is the non-empty result of a scan of a repository with that key, so the union of
  the per-repository sets is contained in the global set; and the two are equal
  when no two repositories of the sequence have the same key.
\<close>

theorem global_set_union:
  "analyze fmt w session username repos {} Map.empty log = Some (Inr (all_emails, repo_emails), log')
   \<and> scans fmt w session username repos log = Some ps
   \<longrightarrow> all_emails = \<Union> (snd ` set ps)
     \<and> (\<forall>k S. repo_emails k = Some S \<longrightarrow> (k, S) \<in> set ps \<and> S \<noteq> {})
     \<and> \<Union> (ran repo_emails) \<subseteq> all_emails
     \<and> (distinct (map fst ps) \<longrightarrow> all_emails = \<Union> (ran repo_emails))"
proof
  assume a: "analyze fmt w session username repos {} Map.empty log = Some (Inr (all_emails, repo_emails), log')
   \<and> scans fmt w session username repos log = Some ps"
  from a analyze_scans [of fmt w session username repos "{}" Map.empty log all_emails repo_emails log']
  have all: "all_emails = \<Union> (snd ` set ps)" and rep: "repo_emails = foldl record_scan Map.empty ps"
    by auto
  have entry: "(k, S) \<in> set ps \<and> S \<noteq> {}" if "repo_emails k = Some S" for k S
    using foldl_record_entry [of Map.empty ps k S] that rep by simp
  have sub: "\<Union> (ran repo_emails) \<subseteq> all_emails"
  proof
    fix e assume "e \<in> \<Union> (ran repo_emails)"
    then obtain k S where "repo_emails k = Some S" "e \<in> S" by (auto simp: ran_def)
    with entry [of k S] all show "e \<in> all_emails" by force
  qed
  have eq: "all_emails = \<Union> (ran repo_emails)" if d: "distinct (map fst ps)"
  proof
    show "all_emails \<subseteq> \<Union> (ran repo_emails)"
    proof
      fix e assume "e \<in> all_emails"
      with all obtain k S where ks: "(k, S) \<in> set ps" "e \<in> S" by auto
      then have "S \<noteq> {}" by auto
      from foldl_record_distinct [OF d ks(1) this, of Map.empty] rep
      have "repo_emails k = Some S" by simp
      with ks(2) show "e \<in> \<Union> (ran repo_emails)" by (auto simp: ran_def)
    qed
  next
    show "\<Union> (ran repo_emails) \<subseteq> all_emails" by (rule sub)
  qed
  from all entry sub eq show "all_emails = \<Union> (snd ` set ps)
     \<and> (\<forall>k S. repo_emails k = Some S \<longrightarrow> (k, S) \<in> set ps \<and> S \<noteq> {})
     \<and> \<Union> (ran repo_emails) \<subseteq> all_emails
     \<and> (distinct (map fst ps) \<longrightarrow> all_emails = \<Union> (ran repo_emails))"
    by blast
qed


text \<open>
  Claim C1 as stated fails in \<open>twice_world\<close>: the second scan of \<open>alice/proj\<close>
  replaces the entry of the first, and \<open>alice@x.com\<close> stays in the global set with no
  per-repository set holding it.
\<close>

theorem global_set_union_counterexample:
  "main py_str twice_world (Some ''ghp_1'') =
     Some (Report {JStr ''alice@x.com'', JStr ''alice@work.com''}
             [''alice/proj'' \<mapsto> {JStr ''alice@work.com''}],
           twice_listing @ proj_scan @ proj_scan)
   \<and> JStr ''alice@x.com'' \<in> {JStr ''alice@x.com'', JStr ''alice@work.com''}
   \<and> JStr ''alice@x.com'' \<notin> \<Union> (ran [''alice/proj'' \<mapsto> {JStr ''alice@work.com''}])"
  using twice_run by simp

text \<open>
  C1 amended, in \<open>twice_world\<close> (inclusion) and in \<open>alice_world\<close> (distinct keys,
  equality).
\<close>

theorem global_set_union_witness:
  "\<Union> (ran [''alice/proj'' \<mapsto> {JStr ''alice@work.com''}])
       \<subseteq> {JStr ''alice@x.com'', JStr ''alice@work.com''}
   \<and> distinct (map fst [(''alice/proj'', {JStr ''alice@x.com''})])
   \<and> {JStr ''alice@x.com''} = \<Union> (ran [''alice/proj'' \<mapsto> {JStr ''alice@x.com''}])"
proof -
  have 1: "\<Union> (ran [''alice/proj'' \<mapsto> {JStr ''alice@work.com''}])
       \<subseteq> {JStr ''alice@x.com'', JStr ''alice@work.com''}"
    using global_set_union [THEN mp, OF conjI, OF twice_analyze twice_scans] by blast
  have d: "distinct (map fst [(''alice/proj'', {JStr ''alice@x.com''})])" by simp
  have 2: "{JStr ''alice@x.com''} = \<Union> (ran [''alice/proj'' \<mapsto> {JStr ''alice@x.com''}])"
    using global_set_union [THEN mp, OF conjI, OF alice_analyze alice_scans] d by blast
  show ?thesis by (intro conjI 1 d 2)
qed


text \<open>
  Claim C10. If two repositories of the sequence have the same key \<open>k\<close>, both scans
  return a non-empty set (\<open>S1\<close>, then \<open>S2\<close>) and no later repository has that key, then
  afterwards the mapping holds \<open>S2\<close> alone under \<open>k\<close>, and the global set contains
  \<open>S1\<close> and \<open>S2\<close>.
\<close>

theorem duplicate_key_replaced:
  "analyze fmt w session username repos {} Map.empty log = Some (Inr (all_emails, repo_emails), log')
   \<and> scans fmt w session username repos log = Some (xs @ (k, S1) # ys @ (k, S2) # zs)
   \<and> S1 \<noteq> {} \<and> S2 \<noteq> {} \<and> k \<notin> fst ` set zs
   \<longrightarrow> repo_emails k = Some S2 \<and> S1 \<union> S2 \<subseteq> all_emails"
proof
  assume a: "analyze fmt w session username repos {} Map.empty log = Some (Inr (all_emails, repo_emails), log')
   \<and> scans fmt w session username repos log = Some (xs @ (k, S1) # ys @ (k, S2) # zs)
   \<and> S1 \<noteq> {} \<and> S2 \<noteq> {} \<and> k \<notin> fst ` set zs"
  let ?ps = "xs @ (k, S1) # ys @ (k, S2) # zs"
  from a analyze_scans [of fmt w session username repos "{}" Map.empty log all_emails repo_emails log']
  have all: "all_emails = \<Union> (snd ` set ?ps)" and rep: "repo_emails = foldl record_scan Map.empty ?ps"
    by auto
  have "foldl record_scan Map.empty ((xs @ (k, S1) # ys) @ (k, S2) # zs) k = Some S2"
    using a by (intro foldl_record_last) auto
  with rep have "repo_emails k = Some S2" by simp
  moreover from all have "S1 \<union> S2 \<subseteq> all_emails" by auto
  ultimately show "repo_emails k = Some S2 \<and> S1 \<union> S2 \<subseteq> all_emails" ..
qed


text \<open>C10 in \<open>twice_world\<close>.\<close>

theorem duplicate_key_replaced_witness:
  "[''alice/proj'' \<mapsto> {JStr ''alice@work.com''}] ''alice/proj'' = Some {JStr ''alice@work.com''}
   \<and> {JStr ''alice@x.com''} \<union> {JStr ''alice@work.com''}
       \<subseteq> {JStr ''alice@x.com'', JStr ''alice@work.com''}"
proof -
  have s: "scans py_str twice_world (create_github_session ''ghp_1'') ''alice'' [proj_repo, proj_repo]
       twice_listing =
     Some ([] @ (''alice/proj'', {JStr ''alice@x.com''}) # [] @ (''alice/proj'', {JStr ''alice@work.com''}) # [])"
    using twice_scans by simp
  have h: "{JStr ''alice@x.com''} \<noteq> {} \<and> {JStr ''alice@work.com''} \<noteq> {}
      \<and> ''alice/proj'' \<notin> fst ` set ([]::(string \<times> json set) list)"
    by simp
  show ?thesis
    by (rule duplicate_key_replaced [THEN mp], intro conjI, rule twice_analyze, rule s)
       (simp_all)
qed


subsection \<open>The push filter (C3)\<close>

lemma truthy_bool: "is_bool v \<Longrightarrow> py_truthy v = (v = JBool True)"
  by (cases v) auto

lemma has_push_entry: "repo_entry repo \<Longrightarrow> has_push repo = Inr (reports_push_true repo)"
  by (cases repo)
     (auto simp: has_push_def bind_err_def truthy_bool split: option.splits json.splits)

lemma push_repos_filter:
  "\<forall>r\<in>set batch. repo_entry r \<Longrightarrow> push_repos batch = Inr (filter reports_push_true batch)"
  by (induction batch) (auto simp: has_push_entry)

lemma push_repos_kept:
  "push_repos batch = Inr kept \<Longrightarrow> r \<in> set kept \<Longrightarrow> has_push r = Inr True"
  by (induction batch arbitrary: kept) (auto split: sum.splits if_splits)

lemma org_repos_loop_push:
  "org_repos_loop fmt w session org_name page acc log = Some y \<Longrightarrow> y = (Inr out, log') \<Longrightarrow>
   \<forall>r\<in>set acc. has_push r = Inr True \<Longrightarrow> \<forall>r\<in>set out. has_push r = Inr True"
proof (induction arbitrary: out log'
       rule: org_repos_loop.raw_induct [rotated 1, consumes 1, case_names step])
  case (step loop fmt w session org_name page acc log y)
  from step.hyps step.prems show ?case
    by (auto simp: session_get_def bind_err_def
             split: option.splits sum.splits if_splits prod.splits
             dest!: step.IH dest: push_repos_kept)
qed

lemma orgs_loop_push:
  "orgs_loop fmt w session orgs acc log = Some (Inr out, log') \<Longrightarrow>
   \<forall>r\<in>set acc. has_push r = Inr True \<Longrightarrow> \<forall>r\<in>set out. has_push r = Inr True"
proof (induction orgs arbitrary: acc log)
  case Nil
  then show ?case by simp
next
  case (Cons org orgs)
  from Cons.prems(1) obtain org_name repos1 log1 where
    a: "org_repos_loop fmt w session org_name 1 acc log = Some (Inr repos1, log1)"
    and b: "orgs_loop fmt w session orgs repos1 log1 = Some (Inr out, log')"
    by (auto split: sum.splits option.splits prod.splits)
  from org_repos_loop_push [OF a refl Cons.prems(2)] Cons.IH [OF b] show ?case by blast
qed

lemma get_org_repos_push:
  "get_org_repos fmt w session log = Some (Inr out, log') \<Longrightarrow> r \<in> set out \<Longrightarrow>
   has_push r = Inr True"
  by (auto simp: get_org_repos_def session_get_def
           split: option.splits sum.splits prod.splits dest!: orgs_loop_push)

lemma get_org_repos_filter:
  assumes orgs: "w (length log) (orgs_request session) = ok (JArr orgs)"
    and served: "\<forall>org\<in>set orgs. org_entry org
        \<and> serves w (org_repos_request fmt session (org_login org)) (listing (org_login org))
        \<and> (\<forall>r\<in>set (listing (org_login org)). repo_entry r)"
  shows "get_org_repos fmt w session log
    = Some (Inr (filter reports_push_true (concat (map (\<lambda>org. listing (org_login org)) orgs))),
            log @ orgs_request session # concat (map (org_pages fmt session listing) orgs))"
proof -
  from served have "\<forall>org\<in>set orgs. org_entry org
      \<and> serves w (org_repos_request fmt session (org_login org)) (listing (org_login org))
      \<and> push_repos (listing (org_login org))
          = Inr ((\<lambda>name. filter reports_push_true (listing name)) (org_login org))"
    by (simp add: push_repos_filter)
  then have "orgs_loop fmt w session orgs [] (log @ [orgs_request session])
      = Some (Inr ([] @ concat (map (\<lambda>org. (\<lambda>name. filter reports_push_true (listing name))
                                              (org_login org)) orgs)),
              (log @ [orgs_request session]) @ concat (map (org_pages fmt session listing) orgs))"
    by (rule orgs_loop_exact)
  moreover from orgs have "get_org_repos fmt w session log
      = orgs_loop fmt w session orgs [] (log @ [orgs_request session])"
    by (rule get_org_repos_orgs)
  ultimately show ?thesis
    by (simp add: filter_concat comp_def)
qed

text \<open>
  Claim C3. On a page whose entries have the documented shape, the comprehension of
  lines 97-98 keeps exactly the entries whose permissions object reports push=true,
  in their order: an entry with push=false, without \<open>push\<close> or without a permissions
  object is dropped. For the enumeration as a whole: when the network lists the
  organizations \<open>orgs\<close> and serves the repositories \<open>listing\<close> of each in pages, all
  entries of that shape, \<open>get_org_repos\<close> returns exactly the entries of all listings
  that report push=true, in the order of the organizations and of their listings, after
  the request for the organizations and every page of every organization. And
  whatever the network, every entry of documented shape in the output of
  \<open>get_org_repos\<close> reports push=true.
\<close>

theorem push_filter:
  "(\<forall>batch. (\<forall>r\<in>set batch. repo_entry r) \<longrightarrow>
      push_repos batch = Inr (filter reports_push_true batch))
   \<and> (\<forall>fmt w session log orgs listing.
        w (length log) (orgs_request session) = ok (JArr orgs)
        \<and> (\<forall>org\<in>set orgs. org_entry org
              \<and> serves w (org_repos_request fmt session (org_login org)) (listing (org_login org))
              \<and> (\<forall>r\<in>set (listing (org_login org)). repo_entry r))
        \<longrightarrow> get_org_repos fmt w session log
          = Some (Inr (filter reports_push_true
                         (concat (map (\<lambda>org. listing (org_login org)) orgs))),
                  log @ orgs_request session # concat (map (org_pages fmt session listing) orgs)))
   \<and> (\<forall>fmt w session log out log' r.
        get_org_repos fmt w session log = Some (Inr out, log') \<and> r \<in> set out \<and> repo_entry r
        \<longrightarrow> reports_push_true r)"
proof (intro conjI allI impI)
  fix batch
  assume "\<forall>r\<in>set batch. repo_entry r"
  then show "push_repos batch = Inr (filter reports_push_true batch)"
    by (rule push_repos_filter)
next
  fix fmt w session orgs and log :: "request list" and listing :: "json \<Rightarrow> json list"
  assume "w (length log) (orgs_request session) = ok (JArr orgs)
      \<and> (\<forall>org\<in>set orgs. org_entry org
            \<and> serves w (org_repos_request fmt session (org_login org)) (listing (org_login org))
            \<and> (\<forall>r\<in>set (listing (org_login org)). repo_entry r))"
  then show "get_org_repos fmt w session log
      = Some (Inr (filter reports_push_true (concat (map (\<lambda>org. listing (org_login org)) orgs))),
              log @ orgs_request session # concat (map (org_pages fmt session listing) orgs))"
    by (intro get_org_repos_filter) simp_all
next
  fix fmt w session log out log' r
  assume a: "get_org_repos fmt w session log = Some (Inr out, log') \<and> r \<in> set out \<and> repo_entry r"
  then have "has_push r = Inr True" by (auto dest: get_org_repos_push)
  with a show "reports_push_true r" by (simp add: has_push_entry)
qed

text \<open>
  The network \<open>acme_world\<close> serves the one page of \<open>acme\<close> and then an empty page.
\<close>

lemma acme_serves:
  "serves acme_world (org_repos_request py_str session (JStr ''acme''))
     [tool_repo True, tool_repo False, bare_repo]"
proof -
  have "acme_world n (org_repos_request py_str session (JStr ''acme'') p)
      = ok (JArr (page_of [tool_repo True, tool_repo False, bare_repo] p))" if "1 \<le> p" for n p
  proof (cases "p = 1")
    case True
    then show ?thesis
      by (simp add: acme_world_def org_repos_request_def org_repos_url_def GITHUB_API_URL_def
            page_of_def)
  next
    case False
    with that have "2 \<le> p" by simp
    then have "3 \<le> 100 * nat (p - 1)" by simp
    then have "page_of [tool_repo True, tool_repo False, bare_repo] p = []"
      by (simp add: page_of_def)
    with False show ?thesis
      by (simp add: acme_world_def org_repos_request_def org_repos_url_def GITHUB_API_URL_def
            org_repos_params_def)
  qed
  then show ?thesis by (simp add: serves_def)
qed

text \<open>
  C3 at the page of \<open>acme_world\<close> and at its enumeration: three requests, and of the
  three entries the one with push access is returned.
\<close>

theorem push_filter_witness:
  "push_repos [tool_repo True, tool_repo False, bare_repo] = Inr [tool_repo True]
   \<and> get_org_repos py_str acme_world (create_github_session ''t'') []
       = Some (Inr [tool_repo True],
           [orgs_request (create_github_session ''t''),
            org_repos_request py_str (create_github_session ''t'') (JStr ''acme'') 1,
            org_repos_request py_str (create_github_session ''t'') (JStr ''acme'') 2])
   \<and> reports_push_true (tool_repo True)"
proof -
  let ?items = "[tool_repo True, tool_repo False, bare_repo]"
  let ?s = "create_github_session ''t''"
  have e: "\<forall>r\<in>set ?items. repo_entry r"
    by (simp add: tool_repo_def bare_repo_def)
  have f: "filter reports_push_true ?items = [tool_repo True]"
    by (simp add: tool_repo_def bare_repo_def)
  from push_filter [THEN conjunct1, THEN spec, THEN mp, OF e]
  have 1: "push_repos ?items = Inr [tool_repo True]"
    unfolding f .
  have o: "acme_world (length ([] :: request list)) (orgs_request ?s) = ok (JArr [acme_org])"
    by (simp add: acme_world_def orgs_request_def GITHUB_API_URL_def acme_org_def)
  have l: "org_login acme_org = JStr ''acme''"
    by (simp add: org_login_def acme_org_def)
  have h: "acme_world (length ([] :: request list)) (orgs_request ?s) = ok (JArr [acme_org])
      \<and> (\<forall>org\<in>set [acme_org]. org_entry org
            \<and> serves acme_world (org_repos_request py_str ?s (org_login org))
                ((\<lambda>name. ?items) (org_login org))
            \<and> (\<forall>r\<in>set ((\<lambda>name. ?items) (org_login org)). repo_entry r))"
    using o e acme_serves [of ?s] by (simp add: l) (simp add: org_entry_def acme_org_def)
  have c: "concat (map (\<lambda>org. ?items) [acme_org]) = ?items" by simp
  have g: "org_pages py_str ?s (\<lambda>name. ?items) acme_org
      = [org_repos_request py_str ?s (JStr ''acme'') 1,
         org_repos_request py_str ?s (JStr ''acme'') 2]"
    by (simp add: org_pages_def l pages_def upto_rec1)
  have "get_org_repos py_str acme_world ?s []
      = Some (Inr (filter reports_push_true (concat (map (\<lambda>org. ?items) [acme_org]))),
              [] @ orgs_request ?s # concat (map (org_pages py_str ?s (\<lambda>name. ?items)) [acme_org]))"
    by (rule push_filter [THEN conjunct2, THEN conjunct1, THEN spec, THEN spec, THEN spec,
          THEN spec, THEN spec, THEN spec, THEN mp, OF h])
  then have 2: "get_org_repos py_str acme_world ?s []
      = Some (Inr [tool_repo True],
           [orgs_request ?s, org_repos_request py_str ?s (JStr ''acme'') 1,
            org_repos_request py_str ?s (JStr ''acme'') 2])"
    by (simp only: c f) (simp add: g)
  have 3: "reports_push_true (tool_repo True)"
    by (rule push_filter [THEN conjunct2, THEN conjunct2, rule_format, where r = "tool_repo True"],
        intro conjI, rule 2, simp, simp add: tool_repo_def)
  show ?thesis by (intro conjI 1 2 3)
qed

subsection \<open>Email extraction from a commit (C4)\<close>

lemma person_email_iff:
  "e \<in> person_email v \<longleftrightarrow> (\<exists>p. v = JObj p \<and> map_of p ''email'' = Some e)"
  by (cases v) (auto split: option.splits)

lemma addresses_iff:
  "e \<in> addresses commits \<longleftrightarrow>
   (\<exists>commit\<in>set commits. \<exists>c p. nested_commit commit = Some c
      \<and> (map_of c ''author'' = Some (JObj p) \<or> map_of c ''committer'' = Some (JObj p))
      \<and> map_of p ''email'' = Some e)"
proof -
  have "e \<in> commit_addresses commit \<longleftrightarrow>
      (\<exists>c p. nested_commit commit = Some c
        \<and> (map_of c ''author'' = Some (JObj p) \<or> map_of c ''committer'' = Some (JObj p))
        \<and> map_of p ''email'' = Some e)" for commit
    by (cases "nested_commit commit")
       (auto simp: commit_addresses_def person_email_iff person_of_def split: option.splits)
  then show ?thesis by (simp add: addresses_def)
qed

lemma contribution_addresses:
  assumes hc: "serves w (commits_request fmt session repo_owner repo_name username) commits"
    and hp: "serves w (pulls_request fmt session repo_owner repo_name) prs"
    and net: "fetches w fmt session repo_owner repo_name fetch"
    and shape: "\<forall>pr\<in>set prs. pr_entry pr \<and> (opened username pr \<longrightarrow> fetch_entry fetch pr)"
    and entries: "\<forall>commit\<in>set (scanned fetch username commits prs). commit_entry commit"
  shows "get_contribution_emails fmt w session repo_owner repo_name username log
    = Some (Inr (addresses (scanned fetch username commits prs)),
            log @ map (commits_request fmt session repo_owner repo_name username)
                    [1..int (pages (length commits)) + 1]
              @ pulls_trace fmt session repo_owner repo_name username prs)"
proof -
  from entries have "scan_commits (scanned fetch username commits prs) {}
      = Inr ({} \<union> addresses (scanned fetch username commits prs))"
    by (rule scan_commits_exact)
  then have "scan_commits (commits @ concat (map (fetched fetch) (filter (opened username) prs))) {}
      = Inr (addresses (scanned fetch username commits prs))"
    by (simp add: scanned_def)
  with hc hp net shape show ?thesis by (rule contribution_exact)
qed

text \<open>
  Claim C4. For every commit the scanner processes: (1) when the scan of a page
  returns, the email of every present author or committer object that has an
  \<open>email\<close> key is in the result set; (2) a commit with neither an author nor a
  committer leaves the set as it was; (3) a present author or committer object
  without an \<open>email\<close> key leaves the set as it was and raises nothing (\<open>add_email\<close> is
  what the loop body applies to each of the two objects); (4) when author and
  committer carry the same address, the commit adds that one element; (5) a commit
  entry of the documented shape adds exactly its addresses, \<open>commit_addresses\<close>, and
  raises nothing; (6) the addresses of a list of commits are exactly the emails of
  the present author and committer objects that have an \<open>email\<close> key. (7) For the
  scanner as a whole: when the network serves the commit listing \<open>commits\<close> and the
  pull-request listing \<open>prs\<close> of a repository in pages and answers the request for the
  commits of a pull request with \<open>fetch\<close>, all entries of the documented shape, then
  \<open>get_contribution_emails\<close> returns exactly the addresses of the commits listed and
  of the commits fetched for the pull requests that \<open>username\<close> opened, after the page
  requests of the commit listing and the requests of the pull-request scan.
\<close>

theorem commit_email_extraction:
  "(\<forall>commits emails emails' commit c p e.
      scan_commits commits emails = Inr emails' \<and> commit \<in> set commits \<and>
      nested_commit commit = Some c \<and>
      (map_of c ''author'' = Some (JObj p) \<or> map_of c ''committer'' = Some (JObj p)) \<and>
      map_of p ''email'' = Some e \<longrightarrow> e \<in> emails')
   \<and> (\<forall>commit c emails.
      nested_commit commit = Some c \<and> map_of c ''author'' = None \<and>
      map_of c ''committer'' = None \<longrightarrow> commit_emails commit emails = Inr emails)
   \<and> (\<forall>p emails. map_of p ''email'' = None \<longrightarrow> add_email (JObj p) emails = Inr emails)
   \<and> (\<forall>commit c p q a emails.
      nested_commit commit = Some c \<and> map_of c ''author'' = Some (JObj p) \<and>
      map_of c ''committer'' = Some (JObj q) \<and> map_of p ''email'' = Some (JStr a) \<and>
      map_of q ''email'' = Some (JStr a) \<longrightarrow>
      commit_emails commit emails = Inr (insert (JStr a) emails))
   \<and> (\<forall>commit emails. commit_entry commit \<longrightarrow>
      commit_emails commit emails = Inr (emails \<union> commit_addresses commit))
   \<and> (\<forall>commits e. e \<in> addresses commits \<longleftrightarrow>
      (\<exists>commit\<in>set commits. \<exists>c p. nested_commit commit = Some c
         \<and> (map_of c ''author'' = Some (JObj p) \<or> map_of c ''committer'' = Some (JObj p))
         \<and> map_of p ''email'' = Some e))
   \<and> (\<forall>fmt w session repo_owner repo_name username log commits prs fetch.
      serves w (commits_request fmt session repo_owner repo_name username) commits
      \<and> serves w (pulls_request fmt session repo_owner repo_name) prs
      \<and> fetches w fmt session repo_owner repo_name fetch
      \<and> (\<forall>pr\<in>set prs. pr_entry pr \<and> (opened username pr \<longrightarrow> fetch_entry fetch pr))
      \<and> (\<forall>commit\<in>set (scanned fetch username commits prs). commit_entry commit)
      \<longrightarrow> get_contribution_emails fmt w session repo_owner repo_name username log
        = Some (Inr (addresses (scanned fetch username commits prs)),
                log @ map (commits_request fmt session repo_owner repo_name username)
                        [1..int (pages (length commits)) + 1]
                  @ pulls_trace fmt session repo_owner repo_name username prs))"
proof (intro conjI allI impI)
  fix commits emails emails' commit c p e
  assume "scan_commits commits emails = Inr emails' \<and> commit \<in> set commits \<and>
      nested_commit commit = Some c \<and>
      (map_of c ''author'' = Some (JObj p) \<or> map_of c ''committer'' = Some (JObj p)) \<and>
      map_of p ''email'' = Some e"
  then show "e \<in> emails'" using scan_commits_has by blast
next
  fix commit c emails
  assume "nested_commit commit = Some c \<and> map_of c ''author'' = None \<and>
      map_of c ''committer'' = None"
  then show "commit_emails commit emails = Inr emails"
    by (simp add: commit_emails_nested add_email_def bind_err_def)
next
  fix p :: "(string \<times> json) list" and emails :: "json set"
  assume "map_of p ''email'' = None"
  then show "add_email (JObj p) emails = Inr emails" by (rule add_email_no_key)
next
  fix commit c p q a emails
  assume "nested_commit commit = Some c \<and> map_of c ''author'' = Some (JObj p) \<and>
      map_of c ''committer'' = Some (JObj q) \<and> map_of p ''email'' = Some (JStr a) \<and>
      map_of q ''email'' = Some (JStr a)"
  then show "commit_emails commit emails = Inr (insert (JStr a) emails)"
    by (simp add: commit_emails_nested add_email_str bind_err_def)
next
  fix commit emails
  assume "commit_entry commit"
  then show "commit_emails commit emails = Inr (emails \<union> commit_addresses commit)"
    by (rule commit_emails_exact)
next
  fix commits e
  show "e \<in> addresses commits \<longleftrightarrow>
      (\<exists>commit\<in>set commits. \<exists>c p. nested_commit commit = Some c
         \<and> (map_of c ''author'' = Some (JObj p) \<or> map_of c ''committer'' = Some (JObj p))
         \<and> map_of p ''email'' = Some e)"
    by (rule addresses_iff)
next
  fix fmt w session repo_owner repo_name username commits prs fetch and log :: "request list"
  assume "serves w (commits_request fmt session repo_owner repo_name username) commits
      \<and> serves w (pulls_request fmt session repo_owner repo_name) prs
      \<and> fetches w fmt session repo_owner repo_name fetch
      \<and> (\<forall>pr\<in>set prs. pr_entry pr \<and> (opened username pr \<longrightarrow> fetch_entry fetch pr))
      \<and> (\<forall>commit\<in>set (scanned fetch username commits prs). commit_entry commit)"
  then show "get_contribution_emails fmt w session repo_owner repo_name username log
      = Some (Inr (addresses (scanned fetch username commits prs)),
              log @ map (commits_request fmt session repo_owner repo_name username)
                      [1..int (pages (length commits)) + 1]
                @ pulls_trace fmt session repo_owner repo_name username prs)"
    by (intro contribution_addresses) simp_all
qed

text \<open>The network \<open>scan_world\<close> and what a scan of \<open>alice/proj\<close> reads there.\<close>

lemma scan_world_serves:
  "serves scan_world (commits_request py_str [] (JStr ''alice'') (JStr ''proj'') ''alice'')
     [alice_commit]"
  "serves scan_world (pulls_request py_str [] (JStr ''alice'') (JStr ''proj''))
     [pull 1 ''alice'', pull 3 ''bob'']"
  "fetches scan_world py_str [] (JStr ''alice'') (JStr ''proj'') scan_fetch"
  by (simp_all add: serves_def fetches_def scan_fetch_def scan_world_def commits_request_def
        commits_url_def commits_params_def pulls_request_def pulls_url_def pulls_params_def
        GITHUB_API_URL_def)

lemma scan_world_scanned:
  "scanned scan_fetch ''alice'' [alice_commit] [pull 1 ''alice'', pull 3 ''bob'']
     = [alice_commit, mail_commit ''alice@work.com'']"
  by (simp add: scanned_def opened_def pull_def fetched_def number_of_def scan_fetch_def
        scan_world_def pr_commits_url_def GITHUB_API_URL_def ok_def)

lemma scan_world_entries:
  "\<forall>pr\<in>set [pull 1 ''alice'', pull 3 ''bob''].
     pr_entry pr \<and> (opened ''alice'' pr \<longrightarrow> fetch_entry scan_fetch pr)"
  "\<forall>commit\<in>set [alice_commit, mail_commit ''alice@work.com'']. commit_entry commit"
  by (simp_all add: opened_def pull_def fetch_entry_def number_of_def scan_fetch_def
        scan_world_def pr_commits_url_def GITHUB_API_URL_def ok_def commit_entry_def
        alice_commit_def mail_commit_def person_of_def)

lemma scan_world_addresses:
  "addresses [alice_commit, mail_commit ''alice@work.com'']
     = {JStr ''alice@x.com'', JStr ''alice@work.com''}"
  by (simp add: addresses_def commit_addresses_def alice_commit_def mail_commit_def person_of_def
        insert_commute)

lemma scan_world_trace:
  "map (commits_request py_str [] (JStr ''alice'') (JStr ''proj'') ''alice'')
       [1..int (pages (length [alice_commit])) + 1]
     @ pulls_trace py_str [] (JStr ''alice'') (JStr ''proj'') ''alice'' [pull 1 ''alice'', pull 3 ''bob'']
   = [GET ''https://api.github.com/repos/alice/proj/commits'' (commits_params ''alice'' 1) [],
      GET ''https://api.github.com/repos/alice/proj/commits'' (commits_params ''alice'' 2) [],
      GET ''https://api.github.com/repos/alice/proj/pulls'' (pulls_params 1) [],
      GET ''https://api.github.com/repos/alice/proj/pulls/1/commits'' [] [],
      GET ''https://api.github.com/repos/alice/proj/pulls'' (pulls_params 2) []]"
  by (simp add: pages_def upto_rec1 pulls_trace_def pulls_page_trace_def page_of_def opened_def
        pull_def commits_request_def commits_url_def pulls_request_def pulls_url_def
        pr_commits_request_def pr_commits_url_def GITHUB_API_URL_def)

text \<open>
  The parts of C4 at concrete commits, and the scan of \<open>alice/proj\<close> in \<open>scan_world\<close>:
  the address of the listed commit and the address of the commit of pull request 1
  are both found, and the pull request of \<open>bob\<close> is not fetched.
\<close>

theorem commit_email_extraction_witness:
  "scan_commits [alice_commit] {} = Inr {JStr ''alice@x.com''}
   \<and> JStr ''alice@x.com'' \<in> {JStr ''alice@x.com''}
   \<and> commit_emails (JObj [(''sha'', JStr ''c0ffee''), (''commit'', JObj [(''message'', JStr ''m'')])]) {} = Inr {}
   \<and> add_email (JObj [(''name'', JStr ''Alice'')]) {} = Inr {}
   \<and> commit_emails alice_commit {} = Inr {JStr ''alice@x.com''}
   \<and> commit_emails (mail_commit ''alice@work.com'') {JStr ''alice@x.com''}
       = Inr {JStr ''alice@x.com'', JStr ''alice@work.com''}
   \<and> JStr ''alice@work.com'' \<in> addresses [alice_commit, mail_commit ''alice@work.com'']
   \<and> get_contribution_emails py_str scan_world [] (JStr ''alice'') (JStr ''proj'') ''alice'' []
       = Some (Inr {JStr ''alice@x.com'', JStr ''alice@work.com''},
           [GET ''https://api.github.com/repos/alice/proj/commits'' (commits_params ''alice'' 1) [],
            GET ''https://api.github.com/repos/alice/proj/commits'' (commits_params ''alice'' 2) [],
            GET ''https://api.github.com/repos/alice/proj/pulls'' (pulls_params 1) [],
            GET ''https://api.github.com/repos/alice/proj/pulls/1/commits'' [] [],
            GET ''https://api.github.com/repos/alice/proj/pulls'' (pulls_params 2) []])"
proof -
  let ?person = "[(''name'', JStr ''Alice''), (''email'', JStr ''alice@x.com'')]"
  let ?c = "[(''author'', JObj ?person), (''committer'', JObj ?person)]"
  let ?work = "[(''email'', JStr ''alice@work.com'')]"
  let ?prs = "[pull 1 ''alice'', pull 3 ''bob'']"
  have s: "scan_commits [alice_commit] {} = Inr {JStr ''alice@x.com''}"
    by (simp add: alice_commit_def commit_emails_def add_email_def bind_err_def)
  have n: "nested_commit alice_commit = Some ?c"
    by (simp add: alice_commit_def)
  note t1 = commit_email_extraction [THEN conjunct1, rule_format]
  note t2 = commit_email_extraction [THEN conjunct2, THEN conjunct1, rule_format]
  note t3 = commit_email_extraction [THEN conjunct2, THEN conjunct2, THEN conjunct1, rule_format]
  note t4 = commit_email_extraction [THEN conjunct2, THEN conjunct2, THEN conjunct2,
      THEN conjunct1, rule_format]
  note t5 = commit_email_extraction [THEN conjunct2, THEN conjunct2, THEN conjunct2,
      THEN conjunct2, THEN conjunct1, THEN spec, THEN spec, THEN mp]
  note t6 = commit_email_extraction [THEN conjunct2, THEN conjunct2, THEN conjunct2,
      THEN conjunct2, THEN conjunct2, THEN conjunct1, THEN spec, THEN spec]
  note t7 = commit_email_extraction [THEN conjunct2, THEN conjunct2, THEN conjunct2,
      THEN conjunct2, THEN conjunct2, THEN conjunct2, THEN spec, THEN spec, THEN spec,
      THEN spec, THEN spec, THEN spec, THEN spec, THEN spec, THEN spec, THEN spec, THEN mp]
  have 1: "JStr ''alice@x.com'' \<in> {JStr ''alice@x.com''}"
    by (rule t1 [where commits = "[alice_commit]" and emails = "{}" and commit = alice_commit
          and c = ?c and p = ?person], intro conjI, rule s, simp, rule n, simp, simp)
  have 2: "commit_emails (JObj [(''sha'', JStr ''c0ffee''), (''commit'', JObj [(''message'', JStr ''m'')])]) {} = Inr {}"
    by (rule t2 [where c = "[(''message'', JStr ''m'')]"]) simp
  have 3: "add_email (JObj [(''name'', JStr ''Alice'')]) {} = Inr {}"
    by (rule t3) simp
  have 4: "commit_emails alice_commit {} = Inr {JStr ''alice@x.com''}"
    by (rule t4 [where c = ?c and p = ?person and q = ?person], intro conjI, rule n, simp_all)
  have "commit_entry (mail_commit ''alice@work.com'')"
    using scan_world_entries(2) by simp
  from t5 [OF this, of "{JStr ''alice@x.com''}"]
  have 5: "commit_emails (mail_commit ''alice@work.com'') {JStr ''alice@x.com''}
      = Inr {JStr ''alice@x.com'', JStr ''alice@work.com''}"
    by (simp add: commit_addresses_def mail_commit_def person_of_def insert_commute)
  have "\<exists>commit\<in>set [alice_commit, mail_commit ''alice@work.com'']. \<exists>c p.
      nested_commit commit = Some c
      \<and> (map_of c ''author'' = Some (JObj p) \<or> map_of c ''committer'' = Some (JObj p))
      \<and> map_of p ''email'' = Some (JStr ''alice@work.com'')"
    by (simp add: mail_commit_def)
  with t6 [of "JStr ''alice@work.com''" "[alice_commit, mail_commit ''alice@work.com'']"]
  have 6: "JStr ''alice@work.com'' \<in> addresses [alice_commit, mail_commit ''alice@work.com'']"
    by (rule iffD2)
  have h: "serves scan_world (commits_request py_str [] (JStr ''alice'') (JStr ''proj'') ''alice'')
        [alice_commit]
      \<and> serves scan_world (pulls_request py_str [] (JStr ''alice'') (JStr ''proj'')) ?prs
      \<and> fetches scan_world py_str [] (JStr ''alice'') (JStr ''proj'') scan_fetch
      \<and> (\<forall>pr\<in>set ?prs. pr_entry pr \<and> (opened ''alice'' pr \<longrightarrow> fetch_entry scan_fetch pr))
      \<and> (\<forall>commit\<in>set (scanned scan_fetch ''alice'' [alice_commit] ?prs). commit_entry commit)"
    by (intro conjI scan_world_serves scan_world_entries(1))
       (simp only: scan_world_scanned, rule scan_world_entries(2))
  have "get_contribution_emails py_str scan_world [] (JStr ''alice'') (JStr ''proj'') ''alice'' []
      = Some (Inr (addresses (scanned scan_fetch ''alice'' [alice_commit] ?prs)),
              [] @ map (commits_request py_str [] (JStr ''alice'') (JStr ''proj'') ''alice'')
                      [1..int (pages (length [alice_commit])) + 1]
                @ pulls_trace py_str [] (JStr ''alice'') (JStr ''proj'') ''alice'' ?prs)"
    by (rule t7 [OF h])
  then have 7: "get_contribution_emails py_str scan_world [] (JStr ''alice'') (JStr ''proj'')
        ''alice'' []
      = Some (Inr {JStr ''alice@x.com'', JStr ''alice@work.com''},
           [GET ''https://api.github.com/repos/alice/proj/commits'' (commits_params ''alice'' 1) [],
            GET ''https://api.github.com/repos/alice/proj/commits'' (commits_params ''alice'' 2) [],
            GET ''https://api.github.com/repos/alice/proj/pulls'' (pulls_params 1) [],
            GET ''https://api.github.com/repos/alice/proj/pulls/1/commits'' [] [],
            GET ''https://api.github.com/repos/alice/proj/pulls'' (pulls_params 2) []])"
    by (simp only: scan_world_scanned scan_world_addresses scan_world_trace append_Nil)
  show ?thesis by (intro conjI s 1 2 3 4 5 6 7)
qed

subsection \<open>Attribution of pull requests (C5)\<close>

text \<open>
  Claim C5. The pull request \<open>ghost_pull\<close> has \<open>"user": null\<close>, so its opener is not
  \<open>alice\<close> and it should contribute nothing. The comprehension of lines 159-160
  calls \<open>.get("login")\<close> on None there and raises \<open>AttributeError\<close>: the pull-request
  scan of \<open>alice/proj\<close> raises after the first page request, before the commits of
  the pull request that \<open>alice\<close> did open are fetched, and \<open>main\<close>, whose handler catches
  request exceptions only, ends with the uncaught exception. The same entry without
  the \<open>user\<close> key is skipped.
\<close>

theorem null_opener_raises:
  "opened_by ''alice'' ghost_pull = Inl AttributeError
   \<and> opened_by ''alice'' (JObj [(''number'', JInt 7)]) = Inr False
   \<and> user_prs ''alice'' [pull 1 ''alice'', ghost_pull] = Inl AttributeError
   \<and> user_prs ''alice'' [pull 1 ''alice'', JObj [(''number'', JInt 7)]] = Inr [pull 1 ''alice'']
   \<and> pulls_loop py_str ghost_world (create_github_session ''ghp_1'') (JStr ''alice'') (JStr ''proj'')
         ''alice'' 1 {} (take 5 ghost_log)
       = Some (Inl AttributeError, ghost_log)
   \<and> main py_str ghost_world (Some ''ghp_1'') = Some (Uncaught AttributeError, ghost_log)"
  by (simp add: run_defs ghost_world_def ghost_log_def ghost_pull_def pull_def opened_by_def)

subsection \<open>A failed commit listing (C6)\<close>

lemma prs_loop_extends:
  "prs_loop fmt w session repo_owner repo_name prs emails log = (result, log') \<Longrightarrow>
   \<exists>rest. log' = log @ rest"
proof (induction prs arbitrary: emails log)
  case Nil
  then show ?case by simp
next
  case (Cons pr prs)
  from Cons.prems show ?case
    by (auto simp: session_get_def split: sum.splits option.splits if_splits prod.splits
             dest!: Cons.IH)
qed

lemma prs_loop_keeps:
  "\<exists>rest. snd (prs_loop fmt w session repo_owner repo_name prs emails (log @ [r]))
      = log @ r # rest"
  using prs_loop_extends [of fmt w session repo_owner repo_name prs emails "log @ [r]"]
  by (cases "prs_loop fmt w session repo_owner repo_name prs emails (log @ [r])") auto

lemma pulls_loop_first_request:
  "pulls_loop fmt w session repo_owner repo_name username page emails log = Some y \<Longrightarrow>
   \<exists>rest. snd y = log @ GET (pulls_url fmt repo_owner repo_name) (pulls_params page) session # rest"
proof (induction rule: pulls_loop.raw_induct [rotated 1, consumes 1, case_names step])
  case (step loop fmt w session repo_owner repo_name username page emails log y)
  from step.hyps show ?case
    by (auto simp: session_get_def split: sum.splits option.splits if_splits prod.splits
             intro: prs_loop_keeps dest!: step.IH prs_loop_extends)
qed

lemma commits_loop_not_200:
  "w (length log) (GET (commits_url fmt repo_owner repo_name) (commits_params username page) session)
      = Some response \<Longrightarrow> status_code response \<noteq> 200 \<Longrightarrow>
   commits_loop fmt w session repo_owner repo_name username page emails log
      = Some (Inr emails, log @ [GET (commits_url fmt repo_owner repo_name) (commits_params username page) session])"
  by (subst commits_loop.simps) (simp add: session_get_def)

text \<open>
  Claim C6. If the first request of the commit scan of a repository is answered with
  a status other than 200, the commit scan ends there with no email and no error,
  and \<open>get_contribution_emails\<close> goes on exactly as the pull-request scan started
  from the empty set; whenever it returns, the request after the failed one is
  the first page of the pull-request listing.
\<close>

theorem commit_listing_failure:
  "w (length log) (GET (commits_url fmt repo_owner repo_name) (commits_params username 1) session)
      = Some response \<and> status_code response \<noteq> 200 \<longrightarrow>
   commits_loop fmt w session repo_owner repo_name username 1 {} log
      = Some (Inr {}, log @ [GET (commits_url fmt repo_owner repo_name) (commits_params username 1) session])
   \<and> get_contribution_emails fmt w session repo_owner repo_name username log
      = pulls_loop fmt w session repo_owner repo_name username 1 {}
          (log @ [GET (commits_url fmt repo_owner repo_name) (commits_params username 1) session])
   \<and> (\<forall>result log'. get_contribution_emails fmt w session repo_owner repo_name username log
           = Some (result, log') \<longrightarrow>
        take (length log + 2) log' = log @
          [GET (commits_url fmt repo_owner repo_name) (commits_params username 1) session,
           GET (pulls_url fmt repo_owner repo_name) (pulls_params 1) session])"
proof (intro impI)
  let ?c = "GET (commits_url fmt repo_owner repo_name) (commits_params username 1) session"
  assume "w (length log) ?c = Some response \<and> status_code response \<noteq> 200"
  then have c: "commits_loop fmt w session repo_owner repo_name username 1 {} log
      = Some (Inr {}, log @ [?c])"
    by (simp add: commits_loop_not_200)
  then have g: "get_contribution_emails fmt w session repo_owner repo_name username log
      = pulls_loop fmt w session repo_owner repo_name username 1 {} (log @ [?c])"
    by (simp add: get_contribution_emails_def)
  have "take (length log + 2) log' = log @
          [?c, GET (pulls_url fmt repo_owner repo_name) (pulls_params 1) session]"
    if "get_contribution_emails fmt w session repo_owner repo_name username log = Some (result, log')"
    for result log'
    using pulls_loop_first_request [of fmt w session repo_owner repo_name username 1 "{}" "log @ [?c]" "(result, log')"]
      that g by auto
  with c g show "commits_loop fmt w session repo_owner repo_name username 1 {} log
      = Some (Inr {}, log @ [?c])
   \<and> get_contribution_emails fmt w session repo_owner repo_name username log
      = pulls_loop fmt w session repo_owner repo_name username 1 {} (log @ [?c])
   \<and> (\<forall>result log'. get_contribution_emails fmt w session repo_owner repo_name username log
           = Some (result, log') \<longrightarrow>
        take (length log + 2) log' = log @
          [?c, GET (pulls_url fmt repo_owner repo_name) (pulls_params 1) session])"
    by blast
qed


text \<open>C6 in \<open>forbidden_world\<close>: the 403 costs nothing but the commit scan.\<close>

theorem commit_listing_failure_witness:
  "forbidden_world 0 (GET (commits_url py_str (JStr ''alice'') (JStr ''proj''))
       (commits_params ''alice'' 1) []) = failure 403
   \<and> get_contribution_emails py_str forbidden_world [] (JStr ''alice'') (JStr ''proj'') ''alice'' []
       = Some (Inr {JStr ''alice@x.com''},
           [GET ''https://api.github.com/repos/alice/proj/commits'' (commits_params ''alice'' 1) [],
            GET ''https://api.github.com/repos/alice/proj/pulls'' (pulls_params 1) [],
            GET ''https://api.github.com/repos/alice/proj/pulls/1/commits'' [] [],
            GET ''https://api.github.com/repos/alice/proj/pulls'' (pulls_params 2) []])"
proof -
  let ?c = "GET (commits_url py_str (JStr ''alice'') (JStr ''proj'')) (commits_params ''alice'' 1) []"
  have u: "commits_url py_str (JStr ''alice'') (JStr ''proj'')
      = ''https://api.github.com/repos/alice/proj/commits''"
    by (simp add: commits_url_def GITHUB_API_URL_def)
  have h: "forbidden_world (length ([]::request list)) ?c
      = Some \<lparr>status_code = 403, body = Some (JObj [(''message'', JStr ''error'')])\<rparr>
    \<and> status_code \<lparr>status_code = 403, body = Some (JObj [(''message'', JStr ''error'')])\<rparr> \<noteq> 200"
    by (simp add: forbidden_world_def failure_def u)
  have p: "pulls_loop py_str forbidden_world [] (JStr ''alice'') (JStr ''proj'') ''alice'' 1 {} ([] @ [?c])
      = Some (Inr {JStr ''alice@x.com''},
           [GET ''https://api.github.com/repos/alice/proj/commits'' (commits_params ''alice'' 1) [],
            GET ''https://api.github.com/repos/alice/proj/pulls'' (pulls_params 1) [],
            GET ''https://api.github.com/repos/alice/proj/pulls/1/commits'' [] [],
            GET ''https://api.github.com/repos/alice/proj/pulls'' (pulls_params 2) []])"
    by (simp add: u pulls_loop.simps forbidden_world_def session_get_def pulls_url_def
          pr_commits_url_def GITHUB_API_URL_def ok_def json_of_def bind_err_def pulls_params_def
          pull_def opened_by_def alice_commit_def commit_emails_def add_email_def)
  from commit_listing_failure [where w = forbidden_world and log = "[]" and fmt = py_str
      and repo_owner = "JStr ''alice''" and repo_name = "JStr ''proj''" and username = "''alice''"
      and session = "[]", THEN mp, OF h, THEN conjunct2, THEN conjunct1]
  have "get_contribution_emails py_str forbidden_world [] (JStr ''alice'') (JStr ''proj'') ''alice'' []
      = pulls_loop py_str forbidden_world [] (JStr ''alice'') (JStr ''proj'') ''alice'' 1 {} ([] @ [?c])" .
  with p h show ?thesis by (simp add: failure_def)
qed


subsection \<open>The token check (C7)\<close>

text \<open>The whole run of \<open>main\<close> in \<open>alice_world\<close>: seven requests, then the report.\<close>

lemma alice_run:
  "main py_str alice_world (Some ''ghp_1'') =
     Some (Report {JStr ''alice@x.com''} [''alice/proj'' \<mapsto> {JStr ''alice@x.com''}],
       [GET ''https://api.github.com/user'' [] (create_github_session ''ghp_1''),
        GET ''https://api.github.com/user/repos'' (user_repos_params 1) (create_github_session ''ghp_1''),
        GET ''https://api.github.com/user/repos'' (user_repos_params 2) (create_github_session ''ghp_1''),
        GET ''https://api.github.com/user/orgs'' [] (create_github_session ''ghp_1''),
        GET ''https://api.github.com/repos/alice/proj/commits'' (commits_params ''alice'' 1) (create_github_session ''ghp_1''),
        GET ''https://api.github.com/repos/alice/proj/commits'' (commits_params ''alice'' 2) (create_github_session ''ghp_1''),
        GET ''https://api.github.com/repos/alice/proj/pulls'' (pulls_params 1) (create_github_session ''ghp_1'')])"
  by (simp add: main_def collect_def get_authenticated_user_def get_user_repos_def
        get_org_repos_def get_contribution_emails_def user_repos_loop.simps commits_loop.simps
        pulls_loop.simps alice_world_def session_get_def GITHUB_API_URL_def ok_def
        raise_for_status_def json_of_def bind_err_def as_str_def proj_repo_def
        user_repos_params_def commits_params_def pulls_params_def commits_url_def pulls_url_def
        repo_key_def alice_commit_def commit_emails_def add_email_def)

text \<open>
  Claim C7 as stated fails for a token that is given but empty (\<open>--token ""\<close>):
  \<open>not token\<close> holds for the empty string, so the run with a token present takes
  the branch.
\<close>

theorem token_check_counterexample:
  "main py_str alice_world (Some '''') = Some (SysExit 1 prompt, [])"
  by (simp add: main_def prompt_def)

text \<open>
  Claim C7, amended. Without a token argument, or with an empty token, \<open>main\<close> prints
  the prompt and exits with status 1 with no request made; with a token that is not
  empty, no run ends in that exit.
\<close>

theorem token_check:
  "(not_token token \<longrightarrow> main fmt w token = Some (SysExit 1 prompt, []))
   \<and> (token = Some t \<and> t \<noteq> [] \<and> main fmt w token = Some (out, log) \<longrightarrow> out \<noteq> SysExit 1 prompt)"
  by (auto simp: main_def prompt_def split: option.splits sum.splits prod.splits if_splits)

text \<open>C7 without a token, and with the token of the run above.\<close>

theorem token_check_witness:
  "main py_str alice_world None = Some (SysExit 1 prompt, [])
   \<and> Report {JStr ''alice@x.com''} [''alice/proj'' \<mapsto> {JStr ''alice@x.com''}] \<noteq> SysExit 1 prompt"
proof -
  have 1: "main py_str alice_world None = Some (SysExit 1 prompt, [])"
    by (rule token_check [THEN conjunct1, THEN mp]) simp
  have 2: "Report {JStr ''alice@x.com''} [''alice/proj'' \<mapsto> {JStr ''alice@x.com''}] \<noteq> SysExit 1 prompt"
    by (rule token_check [where token = "Some ''ghp_1''" and t = "''ghp_1''" and fmt = py_str
          and w = alice_world, THEN conjunct2, THEN mp], intro conjI, simp, simp, rule alice_run)
  show ?thesis by (intro conjI 1 2)
qed


subsection \<open>A failed organization listing (C2)\<close>

lemma get_org_repos_breaks:
  assumes orgs: "w (length log) (orgs_request session) = ok (JArr (before @ org # after))"
    and served: "\<forall>org\<in>set before. org_entry org
        \<and> serves w (org_repos_request fmt session (org_login org)) (listing (org_login org))
        \<and> push_repos (listing (org_login org)) = Inr (kept (org_login org))"
    and entry: "org_entry org"
    and broken: "breaks w (org_repos_request fmt session (org_login org)) items k response"
    and some: "push_repos (take (100 * k) items) = Inr some"
  shows "get_org_repos fmt w session log
    = Some (Inl (HTTPError (status_code response)),
            log @ orgs_request session # concat (map (org_pages fmt session listing) before)
              @ map (org_repos_request fmt session (org_login org)) [1..int k + 1])"
proof -
  from orgs have "get_org_repos fmt w session log
      = orgs_loop fmt w session (before @ org # after) [] (log @ [orgs_request session])"
    by (rule get_org_repos_orgs)
  moreover from served entry broken some
  have "orgs_loop fmt w session (before @ org # after) [] (log @ [orgs_request session])
      = Some (Inl (HTTPError (status_code response)),
              (log @ [orgs_request session]) @ concat (map (org_pages fmt session listing) before)
                @ map (org_repos_request fmt session (org_login org)) [1..int k + 1])"
    by (rule orgs_loop_breaks)
  ultimately show ?thesis by simp
qed

lemma main_breaks:
  assumes token: "t \<noteq> []"
    and user: "w 0 (user_request (create_github_session t)) = ok user"
    and login: "py_index user ''login'' = Inr (JStr username)"
    and owned: "serves w (user_repos_request (create_github_session t)) owned"
    and orgs: "\<forall>n. w n (orgs_request (create_github_session t)) = ok (JArr (before @ org # after))"
    and served: "\<forall>org\<in>set before. org_entry org
        \<and> serves w (org_repos_request fmt (create_github_session t) (org_login org))
            (listing (org_login org))
        \<and> push_repos (listing (org_login org)) = Inr (kept (org_login org))"
    and entry: "org_entry org"
    and broken: "breaks w (org_repos_request fmt (create_github_session t) (org_login org))
        items k response"
    and some: "push_repos (take (100 * k) items) = Inr some"
  shows "main fmt w (Some t)
    = Some (SysExit 1 (ErrorText (HTTPError (status_code response))),
            user_request (create_github_session t)
              # map (user_repos_request (create_github_session t)) [1..int (pages (length owned)) + 1]
              @ orgs_request (create_github_session t)
              # concat (map (org_pages fmt (create_github_session t) listing) before)
              @ map (org_repos_request fmt (create_github_session t) (org_login org))
                  [1..int k + 1])"
proof -
  let ?s = "create_github_session t"
  let ?log1 = "[user_request ?s]"
  let ?log2 = "?log1 @ map (user_repos_request ?s) [1..int (pages (length owned)) + 1]"
  from user have a: "get_authenticated_user w ?s [] = (Inr user, ?log1)"
    by (rule authenticated_user)
  from login have b: "bind_err (py_index user ''login'') as_str = Inr username"
    by (simp add: bind_err_def as_str_def)
  from owned have c: "get_user_repos w ?s ?log1 = Some (Inr owned, ?log2)"
    by (rule get_user_repos_exact)
  from orgs have "w (length ?log2) (orgs_request ?s) = ok (JArr (before @ org # after))"
    by blast
  from get_org_repos_breaks [OF this served entry broken some]
  have d: "get_org_repos fmt w ?s ?log2
      = Some (Inl (HTTPError (status_code response)),
              ?log2 @ orgs_request ?s # concat (map (org_pages fmt ?s listing) before)
                @ map (org_repos_request fmt ?s (org_login org)) [1..int k + 1])" .
  from token a b c d show ?thesis
    by (simp add: main_def collect_def)
qed

text \<open>
  Claim C2 as stated fails in \<open>failing_world\<close>: the 404 on the first page of \<open>acme\<close>
  makes \<open>get_org_repos\<close> raise, \<open>beta\<close> is never listed, and \<open>main\<close> prints the error
  and exits with status 1.
\<close>

theorem org_listing_failure_counterexample:
  "get_org_repos py_str failing_world (create_github_session ''ghp_1'') (take 2 failing_log)
     = Some (Inl (HTTPError 404), failing_log)
   \<and> main py_str failing_world (Some ''ghp_1'')
     = Some (SysExit 1 (ErrorText (HTTPError 404)), failing_log)"
  by (simp add: run_defs failing_world_def failing_log_def failure_def org_repos_loop.simps
        org_repos_url_def org_repos_params_def)

text \<open>
  Claim C2, amended. If a request for a page of an organization's repositories is
  answered with a 4xx or 5xx status, the page loop raises \<open>HTTPError\<close> with no
  further request (line 90, \<open>raise_for_status\<close>); the loop over the organizations
  passes the error on without visiting the remaining organizations; and \<open>main\<close>,
  given the error by \<open>get_org_repos\<close>, prints it and exits with status 1. For the
  enumeration and the program as a whole: when the network lists the organizations
  \<open>before @ org # after\<close>, serves the repositories of each organization of \<open>before\<close>
  in pages, serves \<open>k\<close> pages of \<open>org\<close> and answers the request for its next page
  with a 4xx or 5xx status, then \<open>get_org_repos\<close> raises \<open>HTTPError\<close> with that status,
  the request for that page is its last, and no organization of \<open>after\<close> is asked
  for; and \<open>main\<close>, after the requests for the user and the owned repositories, ends
  there, printing the error and exiting with status 1.
\<close>

theorem org_listing_failure:
  "(w (length log) (GET (org_repos_url fmt org_name) (org_repos_params page) session) = Some response
    \<and> 400 \<le> status_code response \<and> status_code response < 600 \<longrightarrow>
    org_repos_loop fmt w session org_name page all_org_repos log
      = Some (Inl (HTTPError (status_code response)),
              log @ [GET (org_repos_url fmt org_name) (org_repos_params page) session]))
   \<and> (py_index org ''login'' = Inr org_name
      \<and> org_repos_loop fmt w session org_name 1 all_org_repos log = Some (Inl e, log1) \<longrightarrow>
      orgs_loop fmt w session (org # orgs) all_org_repos log = Some (Inl e, log1))
   \<and> (t \<noteq> [] \<and> get_authenticated_user w (create_github_session t) [] = (Inr user, log0)
      \<and> bind_err (py_index user ''login'') as_str = Inr username
      \<and> get_user_repos w (create_github_session t) log0 = Some (Inr user_repos, log2)
      \<and> get_org_repos fmt w (create_github_session t) log2 = Some (Inl (HTTPError status), log3)
      \<longrightarrow> main fmt w (Some t) = Some (SysExit 1 (ErrorText (HTTPError status)), log3))
   \<and> (w (length log) (orgs_request session) = ok (JArr (before @ org # after))
      \<and> (\<forall>org\<in>set before. org_entry org
            \<and> serves w (org_repos_request fmt session (org_login org)) (listing (org_login org))
            \<and> push_repos (listing (org_login org)) = Inr (kept (org_login org)))
      \<and> org_entry org
      \<and> breaks w (org_repos_request fmt session (org_login org)) items k response
      \<and> push_repos (take (100 * k) items) = Inr some
      \<longrightarrow> get_org_repos fmt w session log
        = Some (Inl (HTTPError (status_code response)),
                log @ orgs_request session # concat (map (org_pages fmt session listing) before)
                  @ map (org_repos_request fmt session (org_login org)) [1..int k + 1]))
   \<and> (t \<noteq> [] \<and> w 0 (user_request (create_github_session t)) = ok user
      \<and> py_index user ''login'' = Inr (JStr username)
      \<and> serves w (user_repos_request (create_github_session t)) owned
      \<and> (\<forall>n. w n (orgs_request (create_github_session t)) = ok (JArr (before @ org # after)))
      \<and> (\<forall>org\<in>set before. org_entry org
            \<and> serves w (org_repos_request fmt (create_github_session t) (org_login org))
                (listing (org_login org))
            \<and> push_repos (listing (org_login org)) = Inr (kept (org_login org)))
      \<and> org_entry org
      \<and> breaks w (org_repos_request fmt (create_github_session t) (org_login org)) items k response
      \<and> push_repos (take (100 * k) items) = Inr some
      \<longrightarrow> main fmt w (Some t)
        = Some (SysExit 1 (ErrorText (HTTPError (status_code response))),
                user_request (create_github_session t)
                  # map (user_repos_request (create_github_session t))
                      [1..int (pages (length owned)) + 1]
                  @ orgs_request (create_github_session t)
                  # concat (map (org_pages fmt (create_github_session t) listing) before)
                  @ map (org_repos_request fmt (create_github_session t) (org_login org))
                      [1..int k + 1]))"
proof (intro conjI impI)
  assume "w (length log) (GET (org_repos_url fmt org_name) (org_repos_params page) session) = Some response
    \<and> 400 \<le> status_code response \<and> status_code response < 600"
  then show "org_repos_loop fmt w session org_name page all_org_repos log
      = Some (Inl (HTTPError (status_code response)),
              log @ [GET (org_repos_url fmt org_name) (org_repos_params page) session])"
    by (subst org_repos_loop.simps) (simp add: session_get_def raise_for_status_def)
next
  assume "py_index org ''login'' = Inr org_name
      \<and> org_repos_loop fmt w session org_name 1 all_org_repos log = Some (Inl e, log1)"
  then show "orgs_loop fmt w session (org # orgs) all_org_repos log = Some (Inl e, log1)"
    by simp
next
  assume "t \<noteq> [] \<and> get_authenticated_user w (create_github_session t) [] = (Inr user, log0)
      \<and> bind_err (py_index user ''login'') as_str = Inr username
      \<and> get_user_repos w (create_github_session t) log0 = Some (Inr user_repos, log2)
      \<and> get_org_repos fmt w (create_github_session t) log2 = Some (Inl (HTTPError status), log3)"
  then show "main fmt w (Some t) = Some (SysExit 1 (ErrorText (HTTPError status)), log3)"
    by (simp add: main_def collect_def)
next
  assume "w (length log) (orgs_request session) = ok (JArr (before @ org # after))
      \<and> (\<forall>org\<in>set before. org_entry org
            \<and> serves w (org_repos_request fmt session (org_login org)) (listing (org_login org))
            \<and> push_repos (listing (org_login org)) = Inr (kept (org_login org)))
      \<and> org_entry org
      \<and> breaks w (org_repos_request fmt session (org_login org)) items k response
      \<and> push_repos (take (100 * k) items) = Inr some"
  then show "get_org_repos fmt w session log
      = Some (Inl (HTTPError (status_code response)),
              log @ orgs_request session # concat (map (org_pages fmt session listing) before)
                @ map (org_repos_request fmt session (org_login org)) [1..int k + 1])"
    by (intro get_org_repos_breaks [where kept = kept and some = some and after = after
          and items = items]) simp_all
next
  assume "t \<noteq> [] \<and> w 0 (user_request (create_github_session t)) = ok user
      \<and> py_index user ''login'' = Inr (JStr username)
      \<and> serves w (user_repos_request (create_github_session t)) owned
      \<and> (\<forall>n. w n (orgs_request (create_github_session t)) = ok (JArr (before @ org # after)))
      \<and> (\<forall>org\<in>set before. org_entry org
            \<and> serves w (org_repos_request fmt (create_github_session t) (org_login org))
                (listing (org_login org))
            \<and> push_repos (listing (org_login org)) = Inr (kept (org_login org)))
      \<and> org_entry org
      \<and> breaks w (org_repos_request fmt (create_github_session t) (org_login org)) items k response
      \<and> push_repos (take (100 * k) items) = Inr some"
  then show "main fmt w (Some t)
      = Some (SysExit 1 (ErrorText (HTTPError (status_code response))),
              user_request (create_github_session t)
                # map (user_repos_request (create_github_session t))
                    [1..int (pages (length owned)) + 1]
                @ orgs_request (create_github_session t)
                # concat (map (org_pages fmt (create_github_session t) listing) before)
                @ map (org_repos_request fmt (create_github_session t) (org_login org))
                    [1..int k + 1])"
    by (intro main_breaks [where kept = kept and some = some and after = after
          and items = items and user = user and username = username]) simp_all
qed

text \<open>The enumeration in \<open>failing_world\<close>, started after the first two requests of the run.\<close>

lemma failing_orgs:
  "get_org_repos py_str failing_world (create_github_session ''ghp_1'') (take 2 failing_log)
     = Some (Inl (HTTPError 404), failing_log)"
  by (simp add: run_defs failing_world_def failing_log_def failure_def org_repos_loop.simps
        org_repos_url_def org_repos_params_def)

text \<open>What \<open>late_world\<close> serves, and the requests of the run there.\<close>

lemma late_acme_serves:
  "serves late_world (org_repos_request py_str session (JStr ''acme'')) [tool_repo True]"
proof -
  have "late_world n (org_repos_request py_str session (JStr ''acme'') p)
      = ok (JArr (page_of [tool_repo True] p))" if "1 \<le> p" for n p
  proof (cases "p = 1")
    case True
    then show ?thesis
      by (simp add: late_world_def org_repos_request_def org_repos_url_def GITHUB_API_URL_def
            page_of_def)
  next
    case False
    with that have "2 \<le> p" by simp
    then have "1 \<le> 100 * nat (p - 1)" by simp
    then have "page_of [tool_repo True] p = []"
      by (simp add: page_of_def)
    with False show ?thesis
      by (simp add: late_world_def org_repos_request_def org_repos_url_def GITHUB_API_URL_def
            org_repos_params_def)
  qed
  then show ?thesis by (simp add: serves_def)
qed

lemma late_beta_breaks:
  "breaks late_world (org_repos_request py_str session (JStr ''beta'')) [tool_repo False] 1
     \<lparr>status_code = 503, body = Some (JObj [(''message'', JStr ''error'')])\<rparr>"
  by (simp add: breaks_def late_world_def org_repos_request_def org_repos_url_def
        GITHUB_API_URL_def org_repos_params_def page_of_def pages_def failure_def)

lemma late_account:
  "late_world 0 (user_request session) = ok (JObj [(''login'', JStr ''alice'')])"
  "serves late_world (user_repos_request session) []"
  "late_world n (orgs_request session) = ok (JArr ([acme_org] @ beta_org # []))"
  by (simp_all add: late_world_def user_request_def user_repos_request_def orgs_request_def
        serves_def page_of_def GITHUB_API_URL_def)

lemma late_orgs:
  "org_entry acme_org" "org_login acme_org = JStr ''acme''"
  "org_entry beta_org" "org_login beta_org = JStr ''beta''"
  "push_repos [tool_repo True] = Inr [tool_repo True]"
  "push_repos (take (100 * 1) [tool_repo False]) = Inr []"
  by (simp_all add: org_entry_def org_login_def acme_org_def beta_org_def tool_repo_def
        has_push_def bind_err_def)

lemma late_trace:
  "user_request session
     # map (user_repos_request session) [1..int (pages (length ([] :: json list))) + 1]
     @ orgs_request session # concat (map (org_pages py_str session late_listing) [acme_org])
     @ map (org_repos_request py_str session (org_login beta_org)) [1..int 1 + 1]
   = [user_request session, user_repos_request session 1, orgs_request session,
      org_repos_request py_str session (JStr ''acme'') 1,
      org_repos_request py_str session (JStr ''acme'') 2,
      org_repos_request py_str session (JStr ''beta'') 1,
      org_repos_request py_str session (JStr ''beta'') 2]"
  by (simp add: pages_def upto_rec1 org_pages_def late_orgs late_listing_def)

text \<open>
  C2 amended, in \<open>failing_world\<close> (the first page of the first organization fails)
  and in \<open>late_world\<close> (the second page of the second organization fails, after
  \<open>acme\<close> was listed to the end).
\<close>

theorem org_listing_failure_witness:
  "org_repos_loop py_str failing_world (create_github_session ''ghp_1'') (JStr ''acme'') 1 []
       (take 3 failing_log)
     = Some (Inl (HTTPError 404), failing_log)
   \<and> orgs_loop py_str failing_world (create_github_session ''ghp_1'')
       [JObj [(''login'', JStr ''acme'')], JObj [(''login'', JStr ''beta'')]] [] (take 3 failing_log)
     = Some (Inl (HTTPError 404), failing_log)
   \<and> main py_str failing_world (Some ''ghp_1'')
     = Some (SysExit 1 (ErrorText (HTTPError 404)), failing_log)
   \<and> get_org_repos py_str late_world (create_github_session ''ghp_1'') (take 2 late_log)
     = Some (Inl (HTTPError 503), late_log)
   \<and> main py_str late_world (Some ''ghp_1'')
     = Some (SysExit 1 (ErrorText (HTTPError 503)), late_log)"
proof -
  let ?s = "create_github_session ''ghp_1''"
  let ?r = "\<lparr>status_code = 404, body = Some (JObj [(''message'', JStr ''error'')])\<rparr>"
  let ?r' = "\<lparr>status_code = 503, body = Some (JObj [(''message'', JStr ''error'')])\<rparr>"
  have l: "take 3 failing_log @ [GET (org_repos_url py_str (JStr ''acme'')) (org_repos_params 1) ?s]
      = failing_log"
    by (simp add: failing_log_def org_repos_url_def GITHUB_API_URL_def)
  have h1: "failing_world (length (take 3 failing_log))
        (GET (org_repos_url py_str (JStr ''acme'')) (org_repos_params 1) ?s) = Some ?r
      \<and> 400 \<le> status_code ?r \<and> status_code ?r < 600"
    by (simp add: failing_world_def failing_log_def failure_def org_repos_url_def GITHUB_API_URL_def)
  have 1: "org_repos_loop py_str failing_world ?s (JStr ''acme'') 1 [] (take 3 failing_log)
     = Some (Inl (HTTPError 404), failing_log)"
    using org_listing_failure [where w = failing_world and log = "take 3 failing_log"
        and fmt = py_str and org_name = "JStr ''acme''" and page = 1 and session = ?s
        and response = ?r and all_org_repos = "[]", THEN conjunct1, THEN mp, OF h1]
    by (simp only: l) simp
  have h2: "py_index (JObj [(''login'', JStr ''acme'')]) ''login'' = Inr (JStr ''acme'')
      \<and> org_repos_loop py_str failing_world ?s (JStr ''acme'') 1 [] (take 3 failing_log)
          = Some (Inl (HTTPError 404), failing_log)"
    using 1 by simp
  have 2: "orgs_loop py_str failing_world ?s
       [JObj [(''login'', JStr ''acme'')], JObj [(''login'', JStr ''beta'')]] [] (take 3 failing_log)
     = Some (Inl (HTTPError 404), failing_log)"
    by (rule org_listing_failure [where fmt = py_str and org_name = "JStr ''acme''",
          THEN conjunct2, THEN conjunct1, THEN mp, OF h2])
  have h3: "''ghp_1'' \<noteq> []
      \<and> get_authenticated_user failing_world ?s [] = (Inr (JObj [(''login'', JStr ''alice'')]), take 1 failing_log)
      \<and> bind_err (py_index (JObj [(''login'', JStr ''alice'')]) ''login'') as_str = Inr ''alice''
      \<and> get_user_repos failing_world ?s (take 1 failing_log) = Some (Inr [], take 2 failing_log)
      \<and> get_org_repos py_str failing_world ?s (take 2 failing_log) = Some (Inl (HTTPError 404), failing_log)"
    by (intro conjI failing_orgs)
       (simp_all add: run_defs failing_world_def failing_log_def)
  have 3: "main py_str failing_world (Some ''ghp_1'')
     = Some (SysExit 1 (ErrorText (HTTPError 404)), failing_log)"
    by (rule org_listing_failure [where fmt = py_str and org_name = "JStr ''acme''",
          THEN conjunct2, THEN conjunct2, THEN conjunct1, THEN mp, OF h3])
  have served: "\<forall>org\<in>set [acme_org]. org_entry org
      \<and> serves late_world (org_repos_request py_str ?s (org_login org)) (late_listing (org_login org))
      \<and> push_repos (late_listing (org_login org)) = Inr (late_listing (org_login org))"
    by (simp add: late_orgs late_listing_def late_acme_serves del: push_repos.simps)
  have broken: "breaks late_world (org_repos_request py_str ?s (org_login beta_org))
      [tool_repo False] 1 ?r'"
    by (simp only: late_orgs late_beta_breaks)
  have t2: "take 2 late_log = [user_request ?s, user_repos_request ?s 1]"
    by (simp add: late_log_def)
  have h4: "late_world (length (take 2 late_log)) (orgs_request ?s)
        = ok (JArr ([acme_org] @ beta_org # []))
      \<and> (\<forall>org\<in>set [acme_org]. org_entry org
            \<and> serves late_world (org_repos_request py_str ?s (org_login org))
                (late_listing (org_login org))
            \<and> push_repos (late_listing (org_login org)) = Inr (late_listing (org_login org)))
      \<and> org_entry beta_org
      \<and> breaks late_world (org_repos_request py_str ?s (org_login beta_org)) [tool_repo False] 1 ?r'
      \<and> push_repos (take (100 * 1) [tool_repo False]) = Inr []"
    by (intro conjI late_account(3) served late_orgs(3) broken late_orgs(6))
  have "get_org_repos py_str late_world ?s (take 2 late_log)
      = Some (Inl (HTTPError (status_code ?r')),
              take 2 late_log @ orgs_request ?s
                # concat (map (org_pages py_str ?s late_listing) [acme_org])
                @ map (org_repos_request py_str ?s (org_login beta_org)) [1..int 1 + 1])"
    by (rule org_listing_failure [THEN conjunct2, THEN conjunct2, THEN conjunct2, THEN conjunct1,
          THEN mp, OF h4])
  with late_trace [of ?s] have 4: "get_org_repos py_str late_world ?s (take 2 late_log)
      = Some (Inl (HTTPError 503), late_log)"
    by (simp add: t2 late_log_def pages_def)
  have h5: "''ghp_1'' \<noteq> []
      \<and> late_world 0 (user_request ?s) = ok (JObj [(''login'', JStr ''alice'')])
      \<and> py_index (JObj [(''login'', JStr ''alice'')]) ''login'' = Inr (JStr ''alice'')
      \<and> serves late_world (user_repos_request ?s) []
      \<and> (\<forall>n. late_world n (orgs_request ?s) = ok (JArr ([acme_org] @ beta_org # [])))
      \<and> (\<forall>org\<in>set [acme_org]. org_entry org
            \<and> serves late_world (org_repos_request py_str ?s (org_login org))
                (late_listing (org_login org))
            \<and> push_repos (late_listing (org_login org)) = Inr (late_listing (org_login org)))
      \<and> org_entry beta_org
      \<and> breaks late_world (org_repos_request py_str ?s (org_login beta_org)) [tool_repo False] 1 ?r'
      \<and> push_repos (take (100 * 1) [tool_repo False]) = Inr []"
    by (intro conjI allI late_account served late_orgs(3) broken late_orgs(6)) simp_all
  have "main py_str late_world (Some ''ghp_1'')
      = Some (SysExit 1 (ErrorText (HTTPError (status_code ?r'))),
              user_request ?s
                # map (user_repos_request ?s) [1..int (pages (length ([] :: json list))) + 1]
                @ orgs_request ?s # concat (map (org_pages py_str ?s late_listing) [acme_org])
                @ map (org_repos_request py_str ?s (org_login beta_org)) [1..int 1 + 1])"
    by (rule org_listing_failure [THEN conjunct2, THEN conjunct2, THEN conjunct2, THEN conjunct2,
          THEN mp, OF h5])
  then have 5: "main py_str late_world (Some ''ghp_1'')
      = Some (SysExit 1 (ErrorText (HTTPError 503)), late_log)"
    by (simp only: late_trace late_log_def) simp
  show ?thesis by (intro conjI 1 2 3 4 5)
qed

subsection \<open>A pull request whose commits cannot be fetched (C9)\<close>

lemma prs_loop_mono:
  "prs_loop fmt w session repo_owner repo_name prs emails log = (Inr emails', log') \<Longrightarrow>
   emails \<subseteq> emails'"
proof (induction prs arbitrary: emails log)
  case Nil
  then show ?case by simp
next
  case (Cons pr prs)
  from Cons.prems show ?case
    by (auto simp: session_get_def bind_err_def
             split: sum.splits option.splits if_splits prod.splits
             dest!: Cons.IH scan_commits_mono)
qed

text \<open>
  Claim C9. When the single commit-list request of a pull request is answered with
  a status other than 200, the loop over the page's pull requests goes on with the
  remaining ones from the same set of emails, one request later, and raises
  nothing; and the loop, whenever it completes, returns a superset of the set it
  was given. Since it completes, the page loop goes on to the next page.
\<close>

theorem pull_request_skipped:
  "(py_index pr ''number'' = Inr pr_number \<and>
    w (length log) (GET (pr_commits_url fmt repo_owner repo_name pr_number) [] session)
      = Some response \<and> status_code response \<noteq> 200 \<longrightarrow>
    prs_loop fmt w session repo_owner repo_name (pr # prs) emails log
      = prs_loop fmt w session repo_owner repo_name prs emails
          (log @ [GET (pr_commits_url fmt repo_owner repo_name pr_number) [] session]))
   \<and> (prs_loop fmt w session repo_owner repo_name prs emails log = (Inr emails', log')
        \<longrightarrow> emails \<subseteq> emails')"
  by (auto simp: session_get_def dest: prs_loop_mono)

text \<open>
  C9 in \<open>skipping_world\<close>: pull request 1 is skipped, pull request 2 and page 2 are
  still scanned, and the email held before is kept.
\<close>

theorem pull_request_skipped_witness:
  "prs_loop py_str skipping_world [] (JStr ''alice'') (JStr ''proj'')
       [pull 1 ''alice'', pull 2 ''alice''] {JStr ''old@x.com''} []
     = prs_loop py_str skipping_world [] (JStr ''alice'') (JStr ''proj'')
       [pull 2 ''alice''] {JStr ''old@x.com''}
       [GET ''https://api.github.com/repos/alice/proj/pulls/1/commits'' [] []]
   \<and> pulls_loop py_str skipping_world [] (JStr ''alice'') (JStr ''proj'') ''alice'' 1
         {JStr ''old@x.com''} []
     = Some (Inr {JStr ''old@x.com'', JStr ''alice@x.com'', JStr ''alice@work.com''},
         [GET ''https://api.github.com/repos/alice/proj/pulls'' (pulls_params 1) [],
          GET ''https://api.github.com/repos/alice/proj/pulls/1/commits'' [] [],
          GET ''https://api.github.com/repos/alice/proj/pulls/2/commits'' [] [],
          GET ''https://api.github.com/repos/alice/proj/pulls'' (pulls_params 2) [],
          GET ''https://api.github.com/repos/alice/proj/pulls/5/commits'' [] [],
          GET ''https://api.github.com/repos/alice/proj/pulls'' (pulls_params 3) []])"
proof -
  have u: "pr_commits_url py_str (JStr ''alice'') (JStr ''proj'') (JInt 1)
      = ''https://api.github.com/repos/alice/proj/pulls/1/commits''"
    by (simp add: pr_commits_url_def GITHUB_API_URL_def)
  have h: "py_index (pull 1 ''alice'') ''number'' = Inr (JInt 1) \<and>
    skipping_world (length ([]::request list))
      (GET (pr_commits_url py_str (JStr ''alice'') (JStr ''proj'') (JInt 1)) [] [])
      = Some \<lparr>status_code = 404, body = Some (JObj [(''message'', JStr ''error'')])\<rparr> \<and>
    status_code \<lparr>status_code = 404, body = Some (JObj [(''message'', JStr ''error'')])\<rparr> \<noteq> 200"
    by (simp add: u pull_def skipping_world_def failure_def)
  have 1: "prs_loop py_str skipping_world [] (JStr ''alice'') (JStr ''proj'')
       [pull 1 ''alice'', pull 2 ''alice''] {JStr ''old@x.com''} []
     = prs_loop py_str skipping_world [] (JStr ''alice'') (JStr ''proj'')
       [pull 2 ''alice''] {JStr ''old@x.com''}
       ([] @ [GET (pr_commits_url py_str (JStr ''alice'') (JStr ''proj'') (JInt 1)) [] []])"
    by (rule pull_request_skipped [where pr = "pull 1 ''alice''" and pr_number = "JInt 1"
          and w = skipping_world and log = "[]" and fmt = py_str and session = "[]"
          and repo_owner = "JStr ''alice''" and repo_name = "JStr ''proj''"
          and prs = "[pull 2 ''alice'']" and emails = "{JStr ''old@x.com''}",
          THEN conjunct1, THEN mp, OF h])
  have 2: "pulls_loop py_str skipping_world [] (JStr ''alice'') (JStr ''proj'') ''alice'' 1
         {JStr ''old@x.com''} []
     = Some (Inr {JStr ''old@x.com'', JStr ''alice@x.com'', JStr ''alice@work.com''},
         [GET ''https://api.github.com/repos/alice/proj/pulls'' (pulls_params 1) [],
          GET ''https://api.github.com/repos/alice/proj/pulls/1/commits'' [] [],
          GET ''https://api.github.com/repos/alice/proj/pulls/2/commits'' [] [],
          GET ''https://api.github.com/repos/alice/proj/pulls'' (pulls_params 2) [],
          GET ''https://api.github.com/repos/alice/proj/pulls/5/commits'' [] [],
          GET ''https://api.github.com/repos/alice/proj/pulls'' (pulls_params 3) []])"
    by (simp add: pulls_loop.simps skipping_world_def session_get_def pulls_url_def
          pr_commits_url_def GITHUB_API_URL_def ok_def failure_def json_of_def bind_err_def
          pulls_params_def pull_def opened_by_def mail_commit_def commit_emails_def
          add_email_def insert_commute)
  from 1 2 show ?thesis unfolding u by simp
qed


subsection \<open>Pagination (C8)\<close>

lemma org_repos_pages:
  assumes honest: "serves w (org_repos_request fmt session org_name) items"
  shows "j \<le> pages (length items) \<Longrightarrow>
    \<exists>res k. j \<le> k \<and> k \<le> pages (length items) \<and>
      org_repos_loop fmt w session org_name (int j + 1) acc log
        = Some (res, log @ map (org_repos_request fmt session org_name) [int j + 1..int k + 1])"
proof (induction "pages (length items) - j" arbitrary: j acc log)
  case 0
  then have j: "j = pages (length items)" by simp
  then have e: "page_of items (int j + 1) = []" by (simp add: page_of_last)
  from honest e have "w (length log) (org_repos_request fmt session org_name (int j + 1)) = ok (JArr [])"
    by (simp add: serves_def)
  then have "org_repos_loop fmt w session org_name (int j + 1) acc log
     = Some (Inr acc, log @ [org_repos_request fmt session org_name (int j + 1)])"
    by (rule org_repos_stop)
  then have "org_repos_loop fmt w session org_name (int j + 1) acc log
     = Some (Inr acc, log @ map (org_repos_request fmt session org_name) [int j + 1..int j + 1])"
    by simp
  with j show ?case by blast
next
  case (Suc d)
  then have lt: "j < pages (length items)" by simp
  then have ne: "page_of items (int j + 1) \<noteq> []" by (rule page_of_nonempty)
  let ?r = "org_repos_request fmt session org_name (int j + 1)"
  have p: "int j + 1 + 1 = int (Suc j) + 1" by simp
  from honest have "w (length log) ?r = ok (JArr (page_of items (int j + 1)))"
    by (simp add: serves_def)
  then have step: "org_repos_loop fmt w session org_name (int j + 1) acc log
     = (case push_repos (page_of items (int j + 1)) of
          Inl e \<Rightarrow> Some (Inl e, log @ [?r])
        | Inr kept \<Rightarrow> org_repos_loop fmt w session org_name (int j + 1 + 1) (acc @ kept) (log @ [?r]))"
    using ne by (rule org_repos_step)
  show ?case
  proof (cases "push_repos (page_of items (int j + 1))")
    case (Inl e)
    with step have "org_repos_loop fmt w session org_name (int j + 1) acc log
        = Some (Inl e, log @ map (org_repos_request fmt session org_name) [int j + 1..int j + 1])"
      by simp
    with lt show ?thesis by (intro exI [of _ "Inl e"] exI [of _ j]) simp
  next
    case (Inr kept)
    from Suc.hyps(2) have "d = pages (length items) - Suc j" by simp
    from Suc.hyps(1) [OF this, of "acc @ kept" "log @ [?r]"] lt
    obtain res k where k: "Suc j \<le> k" "k \<le> pages (length items)"
      and IH: "org_repos_loop fmt w session org_name (int (Suc j) + 1) (acc @ kept) (log @ [?r])
        = Some (res, (log @ [?r]) @ map (org_repos_request fmt session org_name) [int (Suc j) + 1..int k + 1])"
      by auto
    from k have u: "[int j + 1..int k + 1] = (int j + 1) # [int (Suc j) + 1..int k + 1]"
      by (intro upto_first) simp
    from step Inr have "org_repos_loop fmt w session org_name (int j + 1) acc log
        = org_repos_loop fmt w session org_name (int (Suc j) + 1) (acc @ kept) (log @ [?r])"
      by (simp only: p sum.case)
    also note IH
    finally have "org_repos_loop fmt w session org_name (int j + 1) acc log
        = Some (res, log @ map (org_repos_request fmt session org_name) [int j + 1..int k + 1])"
      by (simp only: u append_assoc list.map append.simps)
    with k show ?thesis by (intro exI [of _ res] exI [of _ k]) simp
  qed
qed

lemma commits_pages:
  assumes honest: "serves w (commits_request fmt session repo_owner repo_name username) items"
  shows "j \<le> pages (length items) \<Longrightarrow>
    \<exists>res k. j \<le> k \<and> k \<le> pages (length items) \<and>
      commits_loop fmt w session repo_owner repo_name username (int j + 1) emails log
        = Some (res, log @ map (commits_request fmt session repo_owner repo_name username)
                  [int j + 1..int k + 1])"
proof (induction "pages (length items) - j" arbitrary: j emails log)
  case 0
  let ?req = "commits_request fmt session repo_owner repo_name username"
  from 0 have j: "j = pages (length items)" by simp
  then have e: "page_of items (int j + 1) = []" by (simp add: page_of_last)
  from honest e have "w (length log) (?req (int j + 1)) = ok (JArr [])"
    by (simp add: serves_def)
  then have "commits_loop fmt w session repo_owner repo_name username (int j + 1) emails log
     = Some (Inr emails, log @ [?req (int j + 1)])"
    by (rule commits_stop)
  then have "commits_loop fmt w session repo_owner repo_name username (int j + 1) emails log
     = Some (Inr emails, log @ map ?req [int j + 1..int j + 1])"
    by simp
  with j show ?case by blast
next
  case (Suc d)
  let ?req = "commits_request fmt session repo_owner repo_name username"
  from Suc have lt: "j < pages (length items)" by simp
  then have ne: "page_of items (int j + 1) \<noteq> []" by (rule page_of_nonempty)
  let ?r = "?req (int j + 1)"
  have p: "int j + 1 + 1 = int (Suc j) + 1" by simp
  from honest have "w (length log) ?r = ok (JArr (page_of items (int j + 1)))"
    by (simp add: serves_def)
  then have step: "commits_loop fmt w session repo_owner repo_name username (int j + 1) emails log
     = (case scan_commits (page_of items (int j + 1)) emails of
          Inl e \<Rightarrow> Some (Inl e, log @ [?r])
        | Inr emails1 \<Rightarrow> commits_loop fmt w session repo_owner repo_name username (int j + 1 + 1)
            emails1 (log @ [?r]))"
    using ne by (rule commits_step)
  show ?case
  proof (cases "scan_commits (page_of items (int j + 1)) emails")
    case (Inl e)
    with step have "commits_loop fmt w session repo_owner repo_name username (int j + 1) emails log
        = Some (Inl e, log @ map ?req [int j + 1..int j + 1])"
      by simp
    with lt show ?thesis by (intro exI [of _ "Inl e"] exI [of _ j]) simp
  next
    case (Inr emails1)
    from Suc.hyps(2) have "d = pages (length items) - Suc j" by simp
    from Suc.hyps(1) [OF this, of emails1 "log @ [?r]"] lt
    obtain res k where k: "Suc j \<le> k" "k \<le> pages (length items)"
      and IH: "commits_loop fmt w session repo_owner repo_name username (int (Suc j) + 1) emails1
          (log @ [?r])
        = Some (res, (log @ [?r]) @ map ?req [int (Suc j) + 1..int k + 1])"
      by auto
    from k have u: "[int j + 1..int k + 1] = (int j + 1) # [int (Suc j) + 1..int k + 1]"
      by (intro upto_first) simp
    from step Inr have "commits_loop fmt w session repo_owner repo_name username (int j + 1) emails log
        = commits_loop fmt w session repo_owner repo_name username (int (Suc j) + 1) emails1
            (log @ [?r])"
      by (simp only: p sum.case)
    also note IH
    finally have "commits_loop fmt w session repo_owner repo_name username (int j + 1) emails log
        = Some (res, log @ map ?req [int j + 1..int k + 1])"
      by (simp only: u append_assoc list.map append.simps)
    with k show ?thesis by (intro exI [of _ res] exI [of _ k]) simp
  qed
qed

lemma prs_loop_unpaged:
  "prs_loop fmt w session repo_owner repo_name prs emails log = (result, log') \<Longrightarrow>
   \<exists>ext. log' = log @ ext \<and> filter page_request ext = []"
proof (induction prs arbitrary: emails log)
  case Nil
  then show ?case by simp
next
  case (Cons pr prs)
  show ?case
  proof (cases "py_index pr ''number''")
    case (Inl e)
    with Cons.prems show ?thesis by simp
  next
    case (Inr pr_number)
    let ?r = "GET (pr_commits_url fmt repo_owner repo_name pr_number) [] session"
    have np: "\<not> page_request ?r" by (simp add: page_request_def)
    from Cons.prems Inr
    consider "log' = log @ [?r]"
      | emails1 where "prs_loop fmt w session repo_owner repo_name prs emails1 (log @ [?r])
           = (result, log')"
      by (auto simp: session_get_def split: sum.splits option.splits if_splits prod.splits)
    then show ?thesis
    proof cases
      case 1
      with np show ?thesis by simp
    next
      case 2
      from Cons.IH [OF 2] obtain ext where "log' = (log @ [?r]) @ ext" "filter page_request ext = []"
        by blast
      with np show ?thesis by (intro exI [of _ "?r # ext"]) simp
    qed
  qed
qed

lemma page_request_pulls: "page_request (pulls_request fmt session repo_owner repo_name p)"
  by (simp add: page_request_def pulls_request_def pulls_params_def)

lemma pulls_pages:
  assumes honest: "serves w (pulls_request fmt session repo_owner repo_name) items"
  shows "j \<le> pages (length items) \<Longrightarrow>
    \<exists>res ext k. j \<le> k \<and> k \<le> pages (length items) \<and>
      pulls_loop fmt w session repo_owner repo_name username (int j + 1) emails log
        = Some (res, log @ ext) \<and>
      filter page_request ext
        = map (pulls_request fmt session repo_owner repo_name) [int j + 1..int k + 1]"
proof (induction "pages (length items) - j" arbitrary: j emails log)
  case 0
  let ?req = "pulls_request fmt session repo_owner repo_name"
  from 0 have j: "j = pages (length items)" by simp
  then have e: "page_of items (int j + 1) = []" by (simp add: page_of_last)
  from honest e have "w (length log) (?req (int j + 1)) = ok (JArr [])"
    by (simp add: serves_def)
  then have "pulls_loop fmt w session repo_owner repo_name username (int j + 1) emails log
     = Some (Inr emails, log @ [?req (int j + 1)])"
    by (rule pulls_stop)
  moreover have "filter page_request [?req (int j + 1)] = map ?req [int j + 1..int j + 1]"
    by (simp add: page_request_pulls)
  ultimately show ?case using j by blast
next
  case (Suc d)
  let ?req = "pulls_request fmt session repo_owner repo_name"
  from Suc have lt: "j < pages (length items)" by simp
  then have ne: "page_of items (int j + 1) \<noteq> []" by (rule page_of_nonempty)
  let ?r = "?req (int j + 1)"
  have p: "int j + 1 + 1 = int (Suc j) + 1" by simp
  have one: "filter page_request [?r] = map ?req [int j + 1..int j + 1]"
    by (simp add: page_request_pulls)
  from honest have "w (length log) ?r = ok (JArr (page_of items (int j + 1)))"
    by (simp add: serves_def)
  then have step: "pulls_loop fmt w session repo_owner repo_name username (int j + 1) emails log
     = (case user_prs username (page_of items (int j + 1)) of
          Inl e \<Rightarrow> Some (Inl e, log @ [?r])
        | Inr mine \<Rightarrow>
            (case prs_loop fmt w session repo_owner repo_name mine emails (log @ [?r]) of
               (Inl e, log2) \<Rightarrow> Some (Inl e, log2)
             | (Inr emails1, log2) \<Rightarrow>
                 pulls_loop fmt w session repo_owner repo_name username (int j + 1 + 1) emails1 log2))"
    using ne by (rule pulls_step)
  show ?case
  proof (cases "user_prs username (page_of items (int j + 1))")
    case (Inl e)
    with step have "pulls_loop fmt w session repo_owner repo_name username (int j + 1) emails log
        = Some (Inl e, log @ [?r])"
      by simp
    with lt one show ?thesis
      by (intro exI [of _ "Inl e"] exI [of _ "[?r]"] exI [of _ j]) simp
  next
    case (Inr mine)
    obtain r2 log2 where run: "prs_loop fmt w session repo_owner repo_name mine emails (log @ [?r])
        = (r2, log2)"
      by (cases "prs_loop fmt w session repo_owner repo_name mine emails (log @ [?r])")
    from prs_loop_unpaged [OF run] obtain ext1 where
      ext1: "log2 = (log @ [?r]) @ ext1" "filter page_request ext1 = []"
      by blast
    show ?thesis
    proof (cases r2)
      case (Inl e)
      with step Inr run
      have "pulls_loop fmt w session repo_owner repo_name username (int j + 1) emails log
          = Some (Inl e, log2)"
        by simp
      then have "pulls_loop fmt w session repo_owner repo_name username (int j + 1) emails log
          = Some (Inl e, log @ (?r # ext1))"
        by (simp add: ext1)
      moreover from ext1 have "filter page_request (?r # ext1) = map ?req [int j + 1..int j + 1]"
        by (simp add: page_request_pulls)
      ultimately show ?thesis using lt
        by (intro exI [of _ "Inl e"] exI [of _ "?r # ext1"] exI [of _ j]) simp
    next
      case (Inr emails1)
      from Suc.hyps(2) have "d = pages (length items) - Suc j" by simp
      from Suc.hyps(1) [OF this, of emails1 log2] lt
      obtain res ext k where k: "Suc j \<le> k" "k \<le> pages (length items)"
        and IH: "pulls_loop fmt w session repo_owner repo_name username (int (Suc j) + 1) emails1 log2
          = Some (res, log2 @ ext)"
        and f: "filter page_request ext = map ?req [int (Suc j) + 1..int k + 1]"
        by auto
      from k have u: "[int j + 1..int k + 1] = (int j + 1) # [int (Suc j) + 1..int k + 1]"
        by (intro upto_first) simp
      from step \<open>user_prs username (page_of items (int j + 1)) = Inr mine\<close> run Inr
      have "pulls_loop fmt w session repo_owner repo_name username (int j + 1) emails log
          = pulls_loop fmt w session repo_owner repo_name username (int (Suc j) + 1) emails1 log2"
        by (simp only: p sum.case prod.case)
      also note IH
      finally have "pulls_loop fmt w session repo_owner repo_name username (int j + 1) emails log
          = Some (res, log @ (?r # ext1 @ ext))"
        by (simp add: ext1)
      moreover from ext1 f have "filter page_request (?r # ext1 @ ext) = map ?req [int j + 1..int k + 1]"
        by (simp only: u filter.simps filter_append page_request_pulls if_True list.map append.simps)
      ultimately show ?thesis using k
        by (intro exI [of _ res] exI [of _ "?r # ext1 @ ext"] exI [of _ k]) simp
    qed
  qed
qed

lemma page_request_commits:
  "page_request (commits_request fmt session repo_owner repo_name username p)"
  by (simp add: page_request_def commits_request_def commits_params_def)

lemma orgs_loop_single:
  "py_index org ''login'' = Inr org_name \<Longrightarrow>
   orgs_loop fmt w session [org] all_org_repos log
     = org_repos_loop fmt w session org_name 1 all_org_repos log"
  by (simp split: option.splits sum.splits prod.splits)

lemma orgs_loop_pages:
  assumes login: "py_index org ''login'' = Inr org_name"
    and honest: "serves w (org_repos_request fmt session org_name) items"
  shows "\<exists>res m. 1 \<le> m \<and> m \<le> pages (length items) + 1 \<and>
     orgs_loop fmt w session [org] all_org_repos log
       = Some (res, log @ map (org_repos_request fmt session org_name) [1..int m])"
proof -
  from org_repos_pages [OF honest, of 0 all_org_repos log]
  obtain res k where k: "k \<le> pages (length items)"
    and run: "org_repos_loop fmt w session org_name 1 all_org_repos log
      = Some (res, log @ map (org_repos_request fmt session org_name) [1..int k + 1])"
    by auto
  have "int (Suc k) = int k + 1" by simp
  with run orgs_loop_single [OF login]
  have "orgs_loop fmt w session [org] all_org_repos log
      = Some (res, log @ map (org_repos_request fmt session org_name) [1..int (Suc k)])"
    by (simp only:)
  with k show ?thesis by (intro exI [of _ res] exI [of _ "Suc k"]) simp
qed

lemma contribution_pages:
  assumes hc: "serves w (commits_request fmt session repo_owner repo_name username) commits"
    and hp: "serves w (pulls_request fmt session repo_owner repo_name) prs"
  shows "\<exists>res ext m n. 1 \<le> m \<and> m \<le> pages (length commits) + 1 \<and> n \<le> pages (length prs) + 1 \<and>
     get_contribution_emails fmt w session repo_owner repo_name username log = Some (res, log @ ext) \<and>
     filter page_request ext
       = map (commits_request fmt session repo_owner repo_name username) [1..int m]
         @ map (pulls_request fmt session repo_owner repo_name) [1..int n]"
proof -
  let ?creq = "commits_request fmt session repo_owner repo_name username"
  let ?preq = "pulls_request fmt session repo_owner repo_name"
  from commits_pages [OF hc, of 0 "{}" log]
  obtain res1 k where k: "k \<le> pages (length commits)"
    and c: "commits_loop fmt w session repo_owner repo_name username 1 {} log
      = Some (res1, log @ map ?creq [1..int k + 1])"
    by auto
  have sk: "int (Suc k) = int k + 1" by simp
  have fc: "filter page_request (map ?creq [1..int k + 1]) = map ?creq [1..int k + 1]"
    by (simp add: filter_map comp_def page_request_commits)
  show ?thesis
  proof (cases res1)
    case (Inl e)
    with c have "get_contribution_emails fmt w session repo_owner repo_name username log
        = Some (Inl e, log @ map ?creq [1..int k + 1])"
      by (simp add: get_contribution_emails_def)
    moreover from fc have "filter page_request (map ?creq [1..int k + 1])
        = map ?creq [1..int (Suc k)] @ map ?preq [1..int 0]"
      by (simp only: sk) simp
    ultimately show ?thesis using k
      by (intro exI [of _ "Inl e"] exI [of _ "map ?creq [1..int k + 1]"] exI [of _ "Suc k"]
            exI [of _ 0]) simp
  next
    case (Inr emails)
    from pulls_pages [OF hp, of 0 username emails "log @ map ?creq [1..int k + 1]"]
    obtain res ext l where l: "l \<le> pages (length prs)"
      and p: "pulls_loop fmt w session repo_owner repo_name username 1 emails
          (log @ map ?creq [1..int k + 1]) = Some (res, (log @ map ?creq [1..int k + 1]) @ ext)"
      and fp: "filter page_request ext = map ?preq [1..int l + 1]"
      by auto
    have sl: "int (Suc l) = int l + 1" by simp
    from c Inr p have "get_contribution_emails fmt w session repo_owner repo_name username log
        = Some (res, log @ (map ?creq [1..int k + 1] @ ext))"
      by (simp add: get_contribution_emails_def)
    moreover from fc fp have "filter page_request (map ?creq [1..int k + 1] @ ext)
        = map ?creq [1..int (Suc k)] @ map ?preq [1..int (Suc l)]"
      by (simp only: sk sl filter_append)
    ultimately show ?thesis using k l
      by (intro exI [of _ res] exI [of _ "map ?creq [1..int k + 1] @ ext"] exI [of _ "Suc k"]
            exI [of _ "Suc l"]) simp
  qed
qed

lemma user_repos_halt:
  "error_or_empty w log (user_repos_request session p) \<Longrightarrow>
   \<exists>res. user_repos_loop w session p repos log = Some (res, log @ [user_repos_request session p])
     \<and> (res = Inr repos \<or> (\<exists>s. res = Inl (HTTPError s)))"
  by (subst user_repos_loop.simps)
     (auto simp: error_or_empty_def user_repos_request_def session_get_def raise_for_status_def
        json_of_def split: option.splits)

lemma org_repos_halt:
  "error_or_empty w log (org_repos_request fmt session org_name p) \<Longrightarrow>
   \<exists>res. org_repos_loop fmt w session org_name p all_org_repos log
       = Some (res, log @ [org_repos_request fmt session org_name p])
     \<and> (res = Inr all_org_repos \<or> (\<exists>s. res = Inl (HTTPError s)))"
  by (subst org_repos_loop.simps)
     (auto simp: error_or_empty_def org_repos_request_def session_get_def raise_for_status_def
        json_of_def split: option.splits)

lemma commits_halt:
  "error_or_empty w log (commits_request fmt session repo_owner repo_name username p) \<Longrightarrow>
   commits_loop fmt w session repo_owner repo_name username p emails log
     = Some (Inr emails, log @ [commits_request fmt session repo_owner repo_name username p])"
  by (subst commits_loop.simps)
     (auto simp: error_or_empty_def commits_request_def session_get_def json_of_def
        split: option.splits)

lemma pulls_halt:
  "error_or_empty w log (pulls_request fmt session repo_owner repo_name p) \<Longrightarrow>
   pulls_loop fmt w session repo_owner repo_name username p emails log
     = Some (Inr emails, log @ [pulls_request fmt session repo_owner repo_name p])"
  by (subst pulls_loop.simps)
     (auto simp: error_or_empty_def pulls_request_def session_get_def json_of_def
        split: option.splits)

lemma page_request_fetch:
  "\<not> page_request (pr_commits_request fmt session repo_owner repo_name pr)"
  by (simp add: page_request_def pr_commits_request_def)

lemma pulls_page_trace_pages:
  "filter page_request (pulls_page_trace fmt session repo_owner repo_name username prs p)
     = [pulls_request fmt session repo_owner repo_name p]"
  by (simp add: pulls_page_trace_def page_request_pulls filter_map comp_def page_request_fetch)

lemma pulls_trace_prefix:
  "filter page_request
     (concat (map (pulls_page_trace fmt session repo_owner repo_name username prs) [1..int k]))
   = map (pulls_request fmt session repo_owner repo_name) [1..int k]"
proof (induction k)
  case 0
  then show ?case by simp
next
  case (Suc k)
  then show ?case
    by (simp only: upto_last map_append concat_append filter_append list.map concat.simps
          append_Nil2 pulls_page_trace_pages)
qed

lemma pulls_trace_pages:
  "filter page_request (pulls_trace fmt session repo_owner repo_name username prs)
     = map (pulls_request fmt session repo_owner repo_name) [1..int (pages (length prs)) + 1]"
proof -
  have "[1..int (pages (length prs)) + 1]
      = [1..int (pages (length prs))] @ [int (pages (length prs)) + 1]"
    using upto_last [of "pages (length prs)"] by (simp add: add.commute)
  then show ?thesis
    by (simp add: pulls_trace_def pulls_trace_prefix page_request_pulls)
qed

lemma get_org_repos_exact:
  assumes orgs: "w (length log) (orgs_request session) = ok (JArr orgs)"
    and served: "\<forall>org\<in>set orgs. org_entry org
        \<and> serves w (org_repos_request fmt session (org_login org)) (listing (org_login org))
        \<and> push_repos (listing (org_login org)) = Inr (kept (org_login org))"
  shows "get_org_repos fmt w session log
    = Some (Inr (concat (map (\<lambda>org. kept (org_login org)) orgs)),
            log @ orgs_request session # concat (map (org_pages fmt session listing) orgs))"
proof -
  from orgs have "get_org_repos fmt w session log
      = orgs_loop fmt w session orgs [] (log @ [orgs_request session])"
    by (rule get_org_repos_orgs)
  moreover from served have "orgs_loop fmt w session orgs [] (log @ [orgs_request session])
      = Some (Inr ([] @ concat (map (\<lambda>org. kept (org_login org)) orgs)),
              (log @ [orgs_request session]) @ concat (map (org_pages fmt session listing) orgs))"
    by (rule orgs_loop_exact)
  ultimately show ?thesis by simp
qed

text \<open>
  Claim C8. Against a network that serves each listing in pages of 100, every
  paginated listing starts at page 1 and asks for the pages in order up to the first
  empty one, which is page \<open>ceil(length items / 100) + 1\<close>, and then returns:
  \<open>get_user_repos\<close> returns all items after exactly those requests; \<open>get_org_repos\<close>,
  when the filter of lines 97-98 raises nothing, returns what the filter keeps after
  the request for the organizations and exactly those requests for each organization
  in turn; \<open>get_contribution_emails\<close>, when the entries have the shape that the scan
  reads without raising, returns the emails found after exactly those requests for
  the commit listing and then the requests \<open>pulls_trace\<close> of the pull-request scan,
  whose page requests are exactly those for the pages 1 to
  \<open>ceil(length prs / 100) + 1\<close> of the pull-request listing. Whatever the entries are,
  the listing of an organization and the two listings of the scan return after page
  requests for the pages 1, ..., \<open>m\<close> with \<open>m \<le> ceil(length items / 100) + 1\<close> (an
  exception can only end them earlier). Whatever the network, at any page a reply
  with a 4xx/5xx status or with an empty page ends the loop with that request as its
  last: the two repository listings return their list or raise \<open>HTTPError\<close>, the two
  scans return the emails found so far. Each page request carries \<open>per_page\<close> 100 and
  the page number.
\<close>

theorem pagination_bound:
  "(serves w (user_repos_request session) items \<longrightarrow>
      get_user_repos w session log
        = Some (Inr items,
                log @ map (user_repos_request session) [1..int (pages (length items)) + 1]))
   \<and> (w (length log) (orgs_request session) = ok (JArr orgs)
        \<and> (\<forall>org\<in>set orgs. org_entry org
              \<and> serves w (org_repos_request fmt session (org_login org)) (listing (org_login org))
              \<and> push_repos (listing (org_login org)) = Inr (kept (org_login org))) \<longrightarrow>
      get_org_repos fmt w session log
        = Some (Inr (concat (map (\<lambda>org. kept (org_login org)) orgs)),
                log @ orgs_request session # concat (map (org_pages fmt session listing) orgs)))
   \<and> (serves w (commits_request fmt session repo_owner repo_name username) items
        \<and> serves w (pulls_request fmt session repo_owner repo_name) prs
        \<and> fetches w fmt session repo_owner repo_name fetch
        \<and> (\<forall>pr\<in>set prs. pr_entry pr \<and> (opened username pr \<longrightarrow> fetch_entry fetch pr))
        \<and> scan_commits (scanned fetch username items prs) {} = Inr found \<longrightarrow>
      get_contribution_emails fmt w session repo_owner repo_name username log
        = Some (Inr found,
                log @ map (commits_request fmt session repo_owner repo_name username)
                        [1..int (pages (length items)) + 1]
                  @ pulls_trace fmt session repo_owner repo_name username prs))
   \<and> filter page_request (pulls_trace fmt session repo_owner repo_name username prs)
       = map (pulls_request fmt session repo_owner repo_name) [1..int (pages (length prs)) + 1]
   \<and> (py_index org ''login'' = Inr org_name
        \<and> serves w (org_repos_request fmt session org_name) items \<longrightarrow>
      (\<exists>res m. 1 \<le> m \<and> m \<le> pages (length items) + 1 \<and>
         orgs_loop fmt w session [org] all_org_repos log
           = Some (res, log @ map (org_repos_request fmt session org_name) [1..int m])))
   \<and> (serves w (commits_request fmt session repo_owner repo_name username) items
        \<and> serves w (pulls_request fmt session repo_owner repo_name) prs \<longrightarrow>
      (\<exists>res ext m n. 1 \<le> m \<and> m \<le> pages (length items) + 1 \<and> n \<le> pages (length prs) + 1 \<and>
         get_contribution_emails fmt w session repo_owner repo_name username log
           = Some (res, log @ ext) \<and>
         filter page_request ext
           = map (commits_request fmt session repo_owner repo_name username) [1..int m]
             @ map (pulls_request fmt session repo_owner repo_name) [1..int n]))
   \<and> (error_or_empty w log (user_repos_request session p) \<longrightarrow>
      (\<exists>res. user_repos_loop w session p repos log
           = Some (res, log @ [user_repos_request session p])
         \<and> (res = Inr repos \<or> (\<exists>s. res = Inl (HTTPError s)))))
   \<and> (error_or_empty w log (org_repos_request fmt session org_name p) \<longrightarrow>
      (\<exists>res. org_repos_loop fmt w session org_name p all_org_repos log
           = Some (res, log @ [org_repos_request fmt session org_name p])
         \<and> (res = Inr all_org_repos \<or> (\<exists>s. res = Inl (HTTPError s)))))
   \<and> (error_or_empty w log (commits_request fmt session repo_owner repo_name username p) \<longrightarrow>
      commits_loop fmt w session repo_owner repo_name username p emails log
        = Some (Inr emails, log @ [commits_request fmt session repo_owner repo_name username p]))
   \<and> (error_or_empty w log (pulls_request fmt session repo_owner repo_name p) \<longrightarrow>
      pulls_loop fmt w session repo_owner repo_name username p emails log
        = Some (Inr emails, log @ [pulls_request fmt session repo_owner repo_name p]))
   \<and> params (user_repos_request session p)
       = [(''per_page'', JInt 100), (''page'', JInt p), (''affiliation'', JStr ''owner'')]
   \<and> params (org_repos_request fmt session org_name p)
       = [(''per_page'', JInt 100), (''page'', JInt p)]
   \<and> params (commits_request fmt session repo_owner repo_name username p)
       = [(''author'', JStr username), (''per_page'', JInt 100), (''page'', JInt p)]
   \<and> params (pulls_request fmt session repo_owner repo_name p)
       = [(''state'', JStr ''all''), (''per_page'', JInt 100), (''page'', JInt p)]"
proof (intro conjI impI)
  assume "serves w (user_repos_request session) items"
  then show "get_user_repos w session log
      = Some (Inr items, log @ map (user_repos_request session) [1..int (pages (length items)) + 1])"
    by (rule get_user_repos_exact)
next
  assume "w (length log) (orgs_request session) = ok (JArr orgs)
      \<and> (\<forall>org\<in>set orgs. org_entry org
            \<and> serves w (org_repos_request fmt session (org_login org)) (listing (org_login org))
            \<and> push_repos (listing (org_login org)) = Inr (kept (org_login org)))"
  then show "get_org_repos fmt w session log
      = Some (Inr (concat (map (\<lambda>org. kept (org_login org)) orgs)),
              log @ orgs_request session # concat (map (org_pages fmt session listing) orgs))"
    by (intro get_org_repos_exact) simp_all
next
  assume "serves w (commits_request fmt session repo_owner repo_name username) items
      \<and> serves w (pulls_request fmt session repo_owner repo_name) prs
      \<and> fetches w fmt session repo_owner repo_name fetch
      \<and> (\<forall>pr\<in>set prs. pr_entry pr \<and> (opened username pr \<longrightarrow> fetch_entry fetch pr))
      \<and> scan_commits (scanned fetch username items prs) {} = Inr found"
  then show "get_contribution_emails fmt w session repo_owner repo_name username log
      = Some (Inr found,
              log @ map (commits_request fmt session repo_owner repo_name username)
                      [1..int (pages (length items)) + 1]
                @ pulls_trace fmt session repo_owner repo_name username prs)"
    by (intro contribution_exact [where fetch = fetch]) (simp_all add: scanned_def)
next
  show "filter page_request (pulls_trace fmt session repo_owner repo_name username prs)
      = map (pulls_request fmt session repo_owner repo_name) [1..int (pages (length prs)) + 1]"
    by (rule pulls_trace_pages)
next
  assume "py_index org ''login'' = Inr org_name
      \<and> serves w (org_repos_request fmt session org_name) items"
  then show "\<exists>res m. 1 \<le> m \<and> m \<le> pages (length items) + 1 \<and>
      orgs_loop fmt w session [org] all_org_repos log
        = Some (res, log @ map (org_repos_request fmt session org_name) [1..int m])"
    by (intro orgs_loop_pages) simp_all
next
  assume "serves w (commits_request fmt session repo_owner repo_name username) items
      \<and> serves w (pulls_request fmt session repo_owner repo_name) prs"
  then show "\<exists>res ext m n. 1 \<le> m \<and> m \<le> pages (length items) + 1 \<and> n \<le> pages (length prs) + 1 \<and>
      get_contribution_emails fmt w session repo_owner repo_name username log
        = Some (res, log @ ext) \<and>
      filter page_request ext
        = map (commits_request fmt session repo_owner repo_name username) [1..int m]
          @ map (pulls_request fmt session repo_owner repo_name) [1..int n]"
    by (intro contribution_pages) simp_all
next
  assume "error_or_empty w log (user_repos_request session p)"
  then show "\<exists>res. user_repos_loop w session p repos log
        = Some (res, log @ [user_repos_request session p])
      \<and> (res = Inr repos \<or> (\<exists>s. res = Inl (HTTPError s)))"
    by (rule user_repos_halt)
next
  assume "error_or_empty w log (org_repos_request fmt session org_name p)"
  then show "\<exists>res. org_repos_loop fmt w session org_name p all_org_repos log
        = Some (res, log @ [org_repos_request fmt session org_name p])
      \<and> (res = Inr all_org_repos \<or> (\<exists>s. res = Inl (HTTPError s)))"
    by (rule org_repos_halt)
next
  assume "error_or_empty w log (commits_request fmt session repo_owner repo_name username p)"
  then show "commits_loop fmt w session repo_owner repo_name username p emails log
      = Some (Inr emails, log @ [commits_request fmt session repo_owner repo_name username p])"
    by (rule commits_halt)
next
  assume "error_or_empty w log (pulls_request fmt session repo_owner repo_name p)"
  then show "pulls_loop fmt w session repo_owner repo_name username p emails log
      = Some (Inr emails, log @ [pulls_request fmt session repo_owner repo_name p])"
    by (rule pulls_halt)
qed (simp_all add: user_repos_request_def user_repos_params_def org_repos_request_def
       org_repos_params_def commits_request_def commits_params_def pulls_request_def
       pulls_params_def)

text \<open>The networks \<open>paged_world long_listing\<close> and \<open>listed_world\<close>, and what they serve.\<close>

lemma paged_world_serves:
  "serves (paged_world items) (user_repos_request session) items"
  "serves (paged_world items) (org_repos_request fmt session org_name) items"
  "serves (paged_world items) (commits_request fmt session repo_owner repo_name username) items"
  "serves (paged_world items) (pulls_request fmt session repo_owner repo_name) items"
  by (simp_all add: serves_def paged_world_def user_repos_request_def user_repos_params_def
        org_repos_request_def org_repos_params_def commits_request_def commits_params_def
        pulls_request_def pulls_params_def)

lemma paged_world_end:
  "error_or_empty (paged_world long_listing) log (user_repos_request session 3)"
  "error_or_empty (paged_world long_listing) log (org_repos_request fmt session org_name 3)"
  "error_or_empty (paged_world long_listing) log
     (commits_request fmt session repo_owner repo_name username 3)"
  "error_or_empty (paged_world long_listing) log
     (pulls_request fmt session repo_owner repo_name 3)"
  by (simp_all add: error_or_empty_def paged_world_def ok_def page_of_def long_listing_def
        user_repos_request_def
        user_repos_params_def org_repos_request_def org_repos_params_def commits_request_def
        commits_params_def pulls_request_def pulls_params_def)

lemma push_repos_bare: "push_repos (replicate n (JObj [])) = Inr []"
  by (induction n) (simp_all add: has_push_def bind_err_def)

lemma scan_commits_bare: "scan_commits (replicate n (JObj [])) emails = Inr emails"
  by (induction n) (simp_all add: commit_emails_def add_email_def bind_err_def)

lemma listed_world_orgs:
  "listed_world (length ([] :: request list)) (orgs_request []) = ok (JArr [acme_org])"
  "\<forall>org\<in>set [acme_org]. org_entry org
     \<and> serves listed_world (org_repos_request py_str [] (org_login org))
         ((\<lambda>name. long_listing) (org_login org))
     \<and> push_repos ((\<lambda>name. long_listing) (org_login org)) = Inr ((\<lambda>name. []) (org_login org))"
  by (simp_all add: listed_world_def orgs_request_def GITHUB_API_URL_def org_entry_def
        org_login_def acme_org_def serves_def org_repos_request_def org_repos_url_def
        org_repos_params_def paged_world_def long_listing_def push_repos_bare
        del: push_repos.simps replicate.simps)

lemma paged_world_scan:
  "fetches (paged_world long_listing) py_str [] (JStr ''alice'') (JStr ''proj'') no_fetch"
  "\<forall>pr\<in>set long_listing. pr_entry pr \<and> (opened ''alice'' pr \<longrightarrow> fetch_entry no_fetch pr)"
  "scan_commits (scanned no_fetch ''alice'' long_listing long_listing) {} = Inr {}"
  by (simp_all add: fetches_def paged_world_def no_fetch_def long_listing_def opened_def
        scanned_def scan_commits_bare del: replicate.simps)

lemma long_listing_pages:
  "pages (length long_listing) = 2"
  "[1..int 2 + 1] = [1, 2, 3]"
  "org_pages py_str [] (\<lambda>name. long_listing) acme_org
     = map (org_repos_request py_str [] (JStr ''acme'')) [1, 2, 3]"
  "pulls_trace py_str [] (JStr ''alice'') (JStr ''proj'') ''alice'' long_listing
     = map (pulls_request py_str [] (JStr ''alice'') (JStr ''proj'')) [1, 2, 3]"
  by (simp_all add: pages_def long_listing_def upto_rec1 org_pages_def org_login_def acme_org_def
        pulls_trace_def pulls_page_trace_def page_of_def opened_def del: replicate.simps)

text \<open>
  C8 on \<open>long_listing\<close>, 150 entries: exactly three requests list the owned
  repositories, three (after the request for the organizations) the repositories of
  \<open>acme\<close>, three the commits and three the pull requests; at page 3, which is empty,
  each loop ends with that request.
\<close>

theorem pagination_bound_witness:
  "get_user_repos (paged_world long_listing) [] []
     = Some (Inr long_listing, map (user_repos_request []) [1, 2, 3])
   \<and> get_org_repos py_str listed_world [] []
     = Some (Inr [], orgs_request [] # map (org_repos_request py_str [] (JStr ''acme'')) [1, 2, 3])
   \<and> get_contribution_emails py_str (paged_world long_listing) [] (JStr ''alice'') (JStr ''proj'')
         ''alice'' []
     = Some (Inr {},
         map (commits_request py_str [] (JStr ''alice'') (JStr ''proj'') ''alice'') [1, 2, 3]
           @ map (pulls_request py_str [] (JStr ''alice'') (JStr ''proj'')) [1, 2, 3])
   \<and> (\<exists>res m. 1 \<le> m \<and> m \<le> 3 \<and>
        orgs_loop py_str (paged_world long_listing) [] [acme_org] [] []
          = Some (res, map (org_repos_request py_str [] (JStr ''acme'')) [1..int m]))
   \<and> (\<exists>res ext m n. 1 \<le> m \<and> m \<le> 3 \<and> n \<le> 3 \<and>
        get_contribution_emails py_str (paged_world long_listing) [] (JStr ''alice'') (JStr ''proj'')
            ''alice'' [] = Some (res, ext) \<and>
        filter page_request ext
          = map (commits_request py_str [] (JStr ''alice'') (JStr ''proj'') ''alice'') [1..int m]
            @ map (pulls_request py_str [] (JStr ''alice'') (JStr ''proj'')) [1..int n])
   \<and> (\<exists>res. user_repos_loop (paged_world long_listing) [] 3 [] []
          = Some (res, [user_repos_request [] 3]))
   \<and> (\<exists>res. org_repos_loop py_str (paged_world long_listing) [] (JStr ''acme'') 3 [] []
          = Some (res, [org_repos_request py_str [] (JStr ''acme'') 3]))
   \<and> commits_loop py_str (paged_world long_listing) [] (JStr ''alice'') (JStr ''proj'') ''alice'' 3 {} []
       = Some (Inr {}, [commits_request py_str [] (JStr ''alice'') (JStr ''proj'') ''alice'' 3])
   \<and> pulls_loop py_str (paged_world long_listing) [] (JStr ''alice'') (JStr ''proj'') ''alice'' 3 {} []
       = Some (Inr {}, [pulls_request py_str [] (JStr ''alice'') (JStr ''proj'') 3])"
proof -
  note run = pagination_bound [where w = "paged_world long_listing" and items = long_listing
      and prs = long_listing and session = "[]" and log = "[]" and org = acme_org
      and org_name = "JStr ''acme''" and fmt = py_str and repo_owner = "JStr ''alice''"
      and repo_name = "JStr ''proj''" and username = "''alice''" and p = 3 and repos = "[]"
      and all_org_repos = "[]" and emails = "{}" and fetch = no_fetch and found = "{}"]
  note listed = pagination_bound [where w = listed_world and session = "[]" and log = "[]"
      and fmt = py_str and orgs = "[acme_org]" and listing = "\<lambda>name. long_listing"
      and kept = "\<lambda>name. []"]
  note n = long_listing_pages(1)
  note u = long_listing_pages(2)
  have login: "py_index acme_org ''login'' = Inr (JStr ''acme'')"
    by (simp add: acme_org_def)
  from run [THEN conjunct1, THEN mp, OF paged_world_serves(1)]
  have 1: "get_user_repos (paged_world long_listing) [] []
      = Some (Inr long_listing, map (user_repos_request []) [1, 2, 3])"
    by (simp only: n u append_Nil)
  from listed [THEN conjunct2, THEN conjunct1, THEN mp, OF conjI, OF listed_world_orgs]
  have 2: "get_org_repos py_str listed_world [] []
      = Some (Inr [], orgs_request [] # map (org_repos_request py_str [] (JStr ''acme'')) [1, 2, 3])"
    by (simp only: long_listing_pages(3) list.map concat.simps append_Nil append_Nil2)
  have h3: "serves (paged_world long_listing)
        (commits_request py_str [] (JStr ''alice'') (JStr ''proj'') ''alice'') long_listing
      \<and> serves (paged_world long_listing) (pulls_request py_str [] (JStr ''alice'') (JStr ''proj''))
          long_listing
      \<and> fetches (paged_world long_listing) py_str [] (JStr ''alice'') (JStr ''proj'') no_fetch
      \<and> (\<forall>pr\<in>set long_listing. pr_entry pr \<and> (opened ''alice'' pr \<longrightarrow> fetch_entry no_fetch pr))
      \<and> scan_commits (scanned no_fetch ''alice'' long_listing long_listing) {} = Inr {}"
    by (intro conjI paged_world_serves(3) paged_world_serves(4) paged_world_scan)
  from run [THEN conjunct2, THEN conjunct2, THEN conjunct1, THEN mp, OF h3]
  have 3: "get_contribution_emails py_str (paged_world long_listing) [] (JStr ''alice'')
        (JStr ''proj'') ''alice'' []
      = Some (Inr {},
          map (commits_request py_str [] (JStr ''alice'') (JStr ''proj'') ''alice'') [1, 2, 3]
            @ map (pulls_request py_str [] (JStr ''alice'') (JStr ''proj'')) [1, 2, 3])"
    by (simp only: n u long_listing_pages(4) append_Nil)
  from run [THEN conjunct2, THEN conjunct2, THEN conjunct2, THEN conjunct2, THEN conjunct1,
      THEN mp, OF conjI, OF login paged_world_serves(2)]
  have 4: "\<exists>res m. 1 \<le> m \<and> m \<le> 3 \<and>
      orgs_loop py_str (paged_world long_listing) [] [acme_org] [] []
        = Some (res, map (org_repos_request py_str [] (JStr ''acme'')) [1..int m])"
    by (simp only: n append_Nil) simp
  from run [THEN conjunct2, THEN conjunct2, THEN conjunct2, THEN conjunct2, THEN conjunct2,
      THEN conjunct1, THEN mp, OF conjI, OF paged_world_serves(3) paged_world_serves(4)]
  have 5: "\<exists>res ext m n. 1 \<le> m \<and> m \<le> 3 \<and> n \<le> 3 \<and>
      get_contribution_emails py_str (paged_world long_listing) [] (JStr ''alice'') (JStr ''proj'')
          ''alice'' [] = Some (res, ext) \<and>
      filter page_request ext
        = map (commits_request py_str [] (JStr ''alice'') (JStr ''proj'') ''alice'') [1..int m]
          @ map (pulls_request py_str [] (JStr ''alice'') (JStr ''proj'')) [1..int n]"
    by (simp only: n append_Nil) simp
  from run [THEN conjunct2, THEN conjunct2, THEN conjunct2, THEN conjunct2, THEN conjunct2,
      THEN conjunct2, THEN conjunct1, THEN mp, OF paged_world_end(1)]
  have 6: "\<exists>res. user_repos_loop (paged_world long_listing) [] 3 [] []
      = Some (res, [user_repos_request [] 3])"
    by auto
  from run [THEN conjunct2, THEN conjunct2, THEN conjunct2, THEN conjunct2, THEN conjunct2,
      THEN conjunct2, THEN conjunct2, THEN conjunct1, THEN mp, OF paged_world_end(2)]
  have 7: "\<exists>res. org_repos_loop py_str (paged_world long_listing) [] (JStr ''acme'') 3 [] []
      = Some (res, [org_repos_request py_str [] (JStr ''acme'') 3])"
    by auto
  from run [THEN conjunct2, THEN conjunct2, THEN conjunct2, THEN conjunct2, THEN conjunct2,
      THEN conjunct2, THEN conjunct2, THEN conjunct2, THEN conjunct1, THEN mp,
      OF paged_world_end(3)]
  have 8: "commits_loop py_str (paged_world long_listing) [] (JStr ''alice'') (JStr ''proj'') ''alice'' 3 {} []
      = Some (Inr {}, [commits_request py_str [] (JStr ''alice'') (JStr ''proj'') ''alice'' 3])"
    by (simp only: append_Nil)
  from run [THEN conjunct2, THEN conjunct2, THEN conjunct2, THEN conjunct2, THEN conjunct2,
      THEN conjunct2, THEN conjunct2, THEN conjunct2, THEN conjunct2, THEN conjunct1, THEN mp,
      OF paged_world_end(4)]
  have 9: "pulls_loop py_str (paged_world long_listing) [] (JStr ''alice'') (JStr ''proj'') ''alice'' 3 {} []
      = Some (Inr {}, [pulls_request py_str [] (JStr ''alice'') (JStr ''proj'') 3])"
    by (simp only: append_Nil)
  from 1 2 3 4 5 6 7 8 9 show ?thesis by (intro conjI)
qed

end
